theory Spec2Isabelle
  imports Complex_Main "HOL-Library.Sublist" "HOL-Library.Log_Nat"
begin

section \<open>Python string primitives used by the NLP service\<close>

text \<open>
  A text is a Python string whose code points are all below 256; a \<open>char\<close> is its code
  point. On these code points the primitives below are those of Python: \<open>str.lower\<close>
  maps \<open>A..Z\<close> and the upper-case letters of the Latin-1 supplement to their lower-case
  letters, \<open>str.split()\<close> and \<open>str.strip()\<close> treat the characters with
  \<open>str.isspace\<close> as white space (among them U+0085 and U+00A0), \<open>\d\<close> matches the
  decimal digits \<open>0..9\<close>, and \<open>\w\<close> matches the alphanumeric characters (letters,
  digits and the numeric characters of the Latin-1 supplement) and the underscore.
\<close>

definition lower_char :: "char \<Rightarrow> char" where
  "lower_char c =
     (let n = (of_char c :: nat)
      in if (65 \<le> n \<and> n \<le> 90) \<or> (192 \<le> n \<and> n \<le> 214) \<or> (216 \<le> n \<and> n \<le> 222)
         then char_of (n + 32) else c)"

definition lower :: "string \<Rightarrow> string" where
  "lower s = map lower_char s"

definition is_space :: "char \<Rightarrow> bool" where
  "is_space c =
     (let n = (of_char c :: nat)
      in (9 \<le> n \<and> n \<le> 13) \<or> (28 \<le> n \<and> n \<le> 32) \<or> n = 133 \<or> n = 160)"

definition is_digit :: "char \<Rightarrow> bool" where
  "is_digit c = (let n = (of_char c :: nat) in 48 \<le> n \<and> n \<le> 57)"

definition is_word_char :: "char \<Rightarrow> bool" where
  "is_word_char c =
     (let n = (of_char c :: nat) in
        (48 \<le> n \<and> n \<le> 57) \<or> (65 \<le> n \<and> n \<le> 90) \<or> n = 95 \<or> (97 \<le> n \<and> n \<le> 122) \<or>
        n = 170 \<or> n = 178 \<or> n = 179 \<or> n = 181 \<or> n = 185 \<or> n = 186 \<or>
        (188 \<le> n \<and> n \<le> 190) \<or> (192 \<le> n \<and> n \<le> 214) \<or> (216 \<le> n \<and> n \<le> 246) \<or>
        248 \<le> n)"

text \<open>\<open>needle in haystack\<close> on strings: the needle occurs as a contiguous substring.\<close>

fun contains :: "string \<Rightarrow> string \<Rightarrow> bool" where
  "contains needle [] = (needle = [])"
| "contains needle (c # cs) = (prefix needle (c # cs) \<or> contains needle cs)"

text \<open>
  \<open>str.split()\<close> without a separator: a scanner that collects the current word \<open>w\<close>
  and emits it at each white-space character; empty words are never emitted.
\<close>

fun split_words :: "string \<Rightarrow> string \<Rightarrow> string list" where
  "split_words w [] = (if w = [] then [] else [w])"
| "split_words w (c # cs) =
     (if is_space c then (if w = [] then split_words [] cs else w # split_words [] cs)
      else split_words (w @ [c]) cs)"

definition split :: "string \<Rightarrow> string list" where
  "split s = split_words [] s"

text \<open>\<open>sep.join(words)\<close>.\<close>

fun join :: "string \<Rightarrow> string list \<Rightarrow> string" where
  "join sep [] = []"
| "join sep [w] = w"
| "join sep (w # v # ws) = w @ sep @ join sep (v # ws)"

text \<open>\<open>str.strip()\<close>: white space removed at both ends.\<close>

definition strip :: "string \<Rightarrow> string" where
  "strip s = rev (dropWhile is_space (rev (dropWhile is_space s)))"

section \<open>Quantity extraction\<close>

text \<open>The dictionary \<open>word_to_num\<close> of \<open>extract_quantity\<close>, in insertion order.\<close>

definition word_to_num :: "(string \<times> int) list" where
  "word_to_num =
     [(''one'', 1), (''two'', 2), (''three'', 3), (''four'', 4), (''five'', 5),
      (''six'', 6), (''seven'', 7), (''eight'', 8), (''nine'', 9), (''ten'', 10),
      (''eleven'', 11), (''twelve'', 12), (''fifteen'', 15), (''twenty'', 20),
      (''a'', 1), (''an'', 1), (''single'', 1), (''couple'', 2), (''few'', 3)]"

text \<open>
  The loop \<open>for word, num in word_to_num.items(): if word in text_lower: return num\<close>;
  \<open>None\<close> when the loop ends without returning.
\<close>

fun first_word_number :: "(string \<times> int) list \<Rightarrow> string \<Rightarrow> int option" where
  "first_word_number [] t = None"
| "first_word_number ((word, num) # rest) t =
     (if contains word t then Some num else first_word_number rest t)"

text \<open>
  \<open>re.search(r'\b(\d+)\b', text)\<close>: the leftmost digit run that starts and ends at a
  word boundary. \<open>prev\<close> tells whether the character before the current position is
  a word character. A run that is followed by a word character cannot match, and no
  shorter run inside it can (both of its ends would lie between two word characters),
  so the search resumes behind the current character.
\<close>

fun digit_search :: "bool \<Rightarrow> string \<Rightarrow> string option" where
  "digit_search prev [] = None"
| "digit_search prev (c # cs) =
     (if \<not> prev \<and> is_digit c then
        (let run = takeWhile is_digit (c # cs); rest = dropWhile is_digit (c # cs)
         in if rest = [] \<or> \<not> is_word_char (hd rest) then Some run
            else digit_search (is_word_char c) cs)
      else digit_search (is_word_char c) cs)"

definition re_search_number :: "string \<Rightarrow> string option" where
  "re_search_number t = digit_search False t"

text \<open>The exceptions that can leave the functions modelled here.\<close>

datatype py_error =
  ValueError | ZeroDivisionError | OverflowError | RequestError | JSONDecodeError

text \<open>
  \<open>int(s)\<close> on a string of decimal digits. CPython refuses a string of more than
  \<open>sys.int_max_str_digits\<close> digits (4300 unless reconfigured; leading zeros count)
  with \<open>ValueError\<close>.
\<close>

definition digit_val :: "char \<Rightarrow> int" where
  "digit_val c = int (of_char c) - 48"

definition digits_value :: "string \<Rightarrow> int" where
  "digits_value ds = foldl (\<lambda>n c. 10 * n + digit_val c) 0 ds"

definition int_max_str_digits :: nat where
  "int_max_str_digits = 4300"

definition int_of_digits :: "string \<Rightarrow> py_error + int" where
  "int_of_digits ds =
     (if length ds > int_max_str_digits then Inl ValueError else Inr (digits_value ds))"

definition extract_quantity :: "string \<Rightarrow> py_error + int" where
  "extract_quantity t =
     (case first_word_number word_to_num (lower t) of
        Some num \<Rightarrow> Inr num
      | None \<Rightarrow>
          (case re_search_number t of
             Some ds \<Rightarrow> int_of_digits ds
           | None \<Rightarrow> Inr 1))"

section \<open>Lexical normalizer\<close>

text \<open>The dictionary \<open>COMMON_VOICE_CORRECTIONS\<close>; no key occurs twice.\<close>

definition COMMON_VOICE_CORRECTIONS :: "(string \<times> string) list" where
  "COMMON_VOICE_CORRECTIONS =
     [(''cut'', ''cart''), (''kat'', ''cart''), (''kart'', ''cart''), (''caught'', ''cart''),
      (''cot'', ''cart''), (''cat'', ''cart''),
      (''ad'', ''add''), (''had'', ''add''), (''at'', ''add''), (''ed'', ''add''),
      (''remov'', ''remove''), (''remove'', ''remove''), (''delete'', ''remove''),
      (''so'', ''show''), (''sho'', ''show''),
      (''apples'', ''apple''), (''aple'', ''apple''), (''aplle'', ''apple''),
      (''milk'', ''milk''), (''melk'', ''milk''), (''milke'', ''milk''),
      (''bred'', ''bread''), (''brd'', ''bread''),
      (''bananas'', ''banana''), (''bannana'', ''banana''), (''banna'', ''banana''),
      (''tomatos'', ''tomato''), (''tomatoes'', ''tomato''),
      (''potatos'', ''potato''), (''potatoes'', ''potato'')]"

definition filler_words :: "string list" where
  "filler_words = [''the'', ''my'', ''to'', ''a'', ''an'']"

text \<open>\<open>COMMON_VOICE_CORRECTIONS.get(word, word)\<close>.\<close>

definition correct_word :: "string \<Rightarrow> string" where
  "correct_word word =
     (case map_of COMMON_VOICE_CORRECTIONS word of None \<Rightarrow> word | Some v \<Rightarrow> v)"

text \<open>The loop over \<open>words\<close> that fills \<open>corrected\<close>.\<close>

fun correct_words :: "string list \<Rightarrow> string list" where
  "correct_words [] = []"
| "correct_words (word # rest) =
     (if word \<in> set filler_words then correct_words rest
      else correct_word word # correct_words rest)"

definition correct_voice_input :: "string \<Rightarrow> string" where
  "correct_voice_input t = join '' '' (correct_words (split (lower t)))"

section \<open>Intent classifier\<close>

datatype intent =
  view_cart | clear_cart | add_to_cart | remove_from_cart | search_product | list_products
  | unknown

text \<open>\<open>any(phrase in text for phrase in phrases)\<close>.\<close>

definition any_in :: "string list \<Rightarrow> string \<Rightarrow> bool" where
  "any_in phrases t = list_ex (\<lambda>phrase. contains phrase t) phrases"

definition view_cart_phrases :: "string list" where
  "view_cart_phrases =
     [''show cart'', ''view cart'', ''my cart'', ''open cart'', ''check cart'', ''see cart'',
      ''what'' @ [CHR 0x27] @ ''s in my cart'', ''cart items'']"

definition clear_cart_phrases :: "string list" where
  "clear_cart_phrases =
     [''clear cart'', ''empty cart'', ''remove all'', ''delete all'', ''clear my cart'',
      ''empty my cart'']"

definition add_words :: "string list" where
  "add_words = [''add'', ''buy'', ''get'', ''purchase'', ''i want'', ''i need'']"

definition remove_words :: "string list" where
  "remove_words = [''remove'', ''delete'', ''cancel'', ''take out'', ''drop'']"

definition search_words :: "string list" where
  "search_words =
     [''find'', ''search'', ''show'', ''look for'', ''where is'', ''do you have'',
      ''tell me about'']"

definition list_phrases :: "string list" where
  "list_phrases = [''list'', ''show all'', ''available'', ''what do you have'', ''all products'']"

definition detect_intent :: "string \<Rightarrow> intent" where
  "detect_intent t =
     (let text_lower = correct_voice_input (lower t) in
      if any_in view_cart_phrases text_lower then view_cart
      else if any_in clear_cart_phrases text_lower then clear_cart
      else if any_in add_words text_lower then add_to_cart
      else if any_in remove_words text_lower then remove_from_cart
      else if any_in search_words text_lower then search_product
      else if any_in list_phrases text_lower then list_products
      else search_product)"

section \<open>Floating-point numbers\<close>

text \<open>
  A Python \<open>float\<close> is an IEEE 754 double; a finite one is modelled by the rational
  number it denotes. \<open>binade x\<close> is the exponent \<open>e\<close> with \<open>2^e \<le> |x| < 2^(e+1)\<close>,
  computed from the bit lengths of numerator and denominator. \<open>nearest_double x\<close> is
  the double nearest to \<open>x\<close>, a tie going to the even mantissa: \<open>x\<close> is rounded to a
  multiple of \<open>2^(e-52)\<close>, where the exponent is at least -1022 (below, the doubles are
  subnormal and equally spaced). A result of magnitude \<open>2^1024\<close> or more is not a
  finite double.
\<close>

definition round_half_even :: "rat \<Rightarrow> int" where
  "round_half_even x =
     (let n = \<lfloor>x\<rfloor>; f = x - of_int n
      in if f < 1 / 2 then n else if 1 / 2 < f then n + 1
         else if even n then n else n + 1)"

definition binade :: "rat \<Rightarrow> int" where
  "binade x =
     (let (p, q) = quotient_of \<bar>x\<bar>; d = bitlen p - bitlen q
      in if 2 powi d \<le> \<bar>x\<bar> then d else d - 1)"

definition nearest_double :: "rat \<Rightarrow> rat" where
  "nearest_double x =
     (let e = max (binade x) (- 1022); u = 2 powi (e - 52)
      in of_int (round_half_even (x / u)) * u)"

text \<open>
  \<open>a / b\<close> on two \<open>int\<close>s: the quotient is rounded once, to the nearest double;
  \<open>ZeroDivisionError\<close> for a zero divisor and \<open>OverflowError\<close> when the result is
  too large for a float.
\<close>

definition true_divide :: "int \<Rightarrow> int \<Rightarrow> py_error + rat" where
  "true_divide a b =
     (if b = 0 then Inl ZeroDivisionError
      else (let y = nearest_double (of_int a / of_int b)
            in if 2 powi 1024 \<le> \<bar>y\<bar> then Inl OverflowError else Inr y))"

text \<open>
  \<open>x / y\<close> on a finite float and a non-zero number whose quotient is in range, as
  for a score between 0 and 100 divided by 100.
\<close>

definition float_div :: "rat \<Rightarrow> rat \<Rightarrow> rat" where
  "float_div x y = nearest_double (x / y)"

text \<open>
  \<open>round(x, 2)\<close> on a float: the value of the double, exactly, is rounded to the
  nearest hundredth, a tie going to the even one; the result is the double nearest to
  that decimal number.
\<close>

definition py_round2 :: "rat \<Rightarrow> rat" where
  "py_round2 x = nearest_double (of_int (round_half_even (x * 100)) / 100)"

section \<open>Catalog and recommendations\<close>

text \<open>
  A product as \<open>load_products\<close> builds it. Prices are JSON integers, as in the seed
  data of the repository, and so \<open>int\<close>s of Python; a product without a price has
  price 0.
\<close>

record product =
  p_id :: string
  p_name :: string
  p_price :: int
  p_image :: string
  p_category :: string

text \<open>
  A recommended product: the product itself, or the product extended by the key
  \<open>relevance_score\<close> or \<open>similarity_score\<close> (a float).
\<close>

datatype recommendation =
  Unscored product
  | Relevance product int
  | Similarity product rat

fun relevance_score :: "recommendation \<Rightarrow> int" where
  "relevance_score (Relevance p s) = s"
| "relevance_score _ = 0"

fun similarity_score :: "recommendation \<Rightarrow> rat" where
  "similarity_score (Similarity p s) = s"
| "similarity_score _ = 0"

fun rec_product :: "recommendation \<Rightarrow> product" where
  "rec_product (Unscored p) = p"
| "rec_product (Relevance p s) = p"
| "rec_product (Similarity p s) = p"

text \<open>
  \<open>xs.sort(key=f, reverse=True)\<close>: the sort of Python is stable, also in reverse
  order, so elements with equal keys keep their order.
\<close>

definition sort_reverse :: "('a \<Rightarrow> 'k::linordered_ab_group_add) \<Rightarrow> 'a list \<Rightarrow> 'a list" where
  "sort_reverse f xs = sort_key (\<lambda>x. - f x) xs"

text \<open>
  The score of one iteration of the loop, from the float \<open>price_diff\<close>; the literals
  \<open>0.3\<close> and \<open>0.5\<close> are the doubles nearest to 3/10 and 1/2.
\<close>

definition related_score :: "string \<Rightarrow> product \<Rightarrow> rat \<Rightarrow> int" where
  "related_score cat p price_diff =
     (let score = (if p_category p = cat then 50 else 0)
      in if price_diff < nearest_double (3 / 10) then score + 30
         else if price_diff < nearest_double (1 / 2) then score + 15
         else score)"

text \<open>
  The loop of \<open>get_related_recommendations\<close> over the catalog. The division
  \<open>abs(product["price"] - price) / price\<close> raises at the first product with another
  id for which it fails: always, with \<open>ZeroDivisionError\<close>, when the anchor's price
  is 0.
\<close>

fun related_loop :: "string \<Rightarrow> int \<Rightarrow> string \<Rightarrow> product list \<Rightarrow> py_error + recommendation list" where
  "related_loop product_id price cat [] = Inr []"
| "related_loop product_id price cat (p # ps) =
     (if p_id p = product_id then related_loop product_id price cat ps
      else (case true_divide \<bar>p_price p - price\<bar> price of
              Inl e \<Rightarrow> Inl e
            | Inr price_diff \<Rightarrow>
                (case related_loop product_id price cat ps of
                   Inl e \<Rightarrow> Inl e
                 | Inr related \<Rightarrow>
                     Inr (if related_score cat p price_diff > 0
                          then Relevance p (related_score cat p price_diff) # related
                          else related))))"

definition get_related_recommendations ::
    "product list \<Rightarrow> string \<Rightarrow> nat \<Rightarrow> py_error + recommendation list" where
  "get_related_recommendations products product_id limit =
     (case find (\<lambda>p. p_id p = product_id) products of
        None \<Rightarrow> Inr (map Unscored (take limit products))
      | Some current_product \<Rightarrow>
          (case related_loop product_id (p_price current_product)
                  (p_category current_product) products of
             Inl e \<Rightarrow> Inl e
           | Inr related \<Rightarrow> Inr (take limit (sort_reverse relevance_score related))))"

text \<open>
  \<open>get_similar_products\<close>; the scorer \<open>fuzz.partial_ratio\<close> of the rapidfuzz library
  is a parameter. Its scores are floats between 0 and 100.
\<close>

fun similar_loop :: "(string \<Rightarrow> string \<Rightarrow> rat) \<Rightarrow> string \<Rightarrow> product list \<Rightarrow> recommendation list" where
  "similar_loop partial_ratio search_term [] = []"
| "similar_loop partial_ratio search_term (p # ps) =
     (let name_score = partial_ratio (lower search_term) (lower (p_name p));
          category_score = partial_ratio (lower search_term) (lower (p_category p));
          score = max name_score category_score
      in if score > 40 then Similarity p score # similar_loop partial_ratio search_term ps
         else similar_loop partial_ratio search_term ps)"

definition get_similar_products ::
    "(string \<Rightarrow> string \<Rightarrow> rat) \<Rightarrow> product list \<Rightarrow> string \<Rightarrow> nat \<Rightarrow> recommendation list" where
  "get_similar_products partial_ratio products search_term limit =
     take limit (sort_reverse similarity_score (similar_loop partial_ratio search_term products))"

text \<open>A small catalog for the examples; the last product has no price and so price 0.\<close>

definition example_catalog :: "product list" where
  "example_catalog =
     [\<lparr>p_id = ''p1'', p_name = ''Organic Apple'', p_price = 100, p_image = [],
        p_category = ''produce''\<rparr>,
      \<lparr>p_id = ''p2'', p_name = ''Oat Milk'', p_price = 105, p_image = [],
        p_category = ''dairy''\<rparr>,
      \<lparr>p_id = ''p3'', p_name = ''Fresh Pear'', p_price = 110, p_image = [],
        p_category = ''produce''\<rparr>,
      \<lparr>p_id = ''p4'', p_name = ''Gift Box'', p_price = 0, p_image = [],
        p_category = ''gifts''\<rparr>]"

section \<open>The command parser\<close>

text \<open>
  The cart service behind \<open>httpx\<close>. A request either fails in transport (time-out,
  service unreachable: \<open>Inl\<close>) or yields a response, whose \<open>json()\<close> either fails
  or gives the decoded body. Of the body only the keys \<open>items\<close> and \<open>message\<close> are
  read; an absent key is \<open>None\<close>.
\<close>

record cart_item =
  item_product_id :: string
  item_product_name :: string
  item_qty :: int

record cart_data =
  cart_items :: "cart_item list option"
  cart_message :: "string option"

datatype cart_request =
  GetCart
  | ClearCart
  | AddItem string string int int string string
  | RemoveItem string string

type_synonym http_response = "py_error + cart_data"

text \<open>
  What \<open>parse_command\<close> reads from its surroundings: the catalog that
  \<open>load_products\<close> returns, the two scorers of the rapidfuzz library (their
  scores are floats between 0 and 100), and the cart service.
\<close>

record env =
  catalog :: "product list"
  token_set_ratio :: "string \<Rightarrow> string \<Rightarrow> rat"
  partial_ratio :: "string \<Rightarrow> string \<Rightarrow> rat"
  cart_service :: "string option \<Rightarrow> cart_request \<Rightarrow> py_error + http_response"

text \<open>
  The message of the result; each constructor is one of the message templates of
  \<open>parse_command\<close> with the values it interpolates.
\<close>

datatype message =
  MsgEmpty
  | MsgNotHeard
  | MsgNoCatalog
  | MsgCart string
  | MsgCartCount nat
  | MsgCleared
  | MsgCatalogSize nat
  | MsgAdded int string int
  | MsgAddedPending int string
  | MsgRemoved string
  | MsgRemovedPending string
  | MsgFound string int string
  | MsgSimilar string
  | MsgNoMatch string

record slots =
  product_name :: "string option"
  product_id :: "string option"
  quantity :: int
  category :: "string option"
  cart :: "cart_data option"

record parsed_command =
  intent :: intent
  slots :: slots
  confidence :: rat
  recommendations :: "recommendation list"
  message :: message
  user_id :: "string option"

text \<open>
  \<open>process.extractOne(query, choices, scorer=scorer)\<close> of the rapidfuzz library: the
  choice with the highest score, the first one among equals; \<open>None\<close> without choices.
\<close>

fun extract_loop ::
    "(string \<Rightarrow> string \<Rightarrow> rat) \<Rightarrow> string \<Rightarrow> (string \<times> rat) option \<Rightarrow> string list \<Rightarrow> (string \<times> rat) option" where
  "extract_loop scorer query best [] = best"
| "extract_loop scorer query best (choice # choices) =
     (let score = scorer query choice
      in extract_loop scorer query
           (case best of
              None \<Rightarrow> Some (choice, score)
            | Some (c, s) \<Rightarrow> if score > s then Some (choice, score) else best)
           choices)"

definition extractOne ::
    "(string \<Rightarrow> string \<Rightarrow> rat) \<Rightarrow> string \<Rightarrow> string list \<Rightarrow> (string \<times> rat) option" where
  "extractOne scorer query choices = extract_loop scorer query None choices"

definition initial_result :: "string option \<Rightarrow> parsed_command" where
  "initial_result uid =
     \<lparr>intent = unknown,
      slots = \<lparr>product_name = None, product_id = None, quantity = 1, category = None,
               cart = None\<rparr>,
      confidence = 0, recommendations = [], message = MsgEmpty, user_id = uid\<rparr>"

text \<open>Lines 279 to 287: the \<open>view_cart\<close> intent. Nothing catches a failing request.\<close>

definition handle_view_cart :: "env \<Rightarrow> string option \<Rightarrow> parsed_command \<Rightarrow> py_error + parsed_command" where
  "handle_view_cart e uid result =
     (case cart_service e uid GetCart of
        Inl err \<Rightarrow> Inl err
      | Inr r \<Rightarrow>
          (case r of
             Inl err \<Rightarrow> Inl err
           | Inr data \<Rightarrow>
               (let count = length (case cart_items data of None \<Rightarrow> [] | Some its \<Rightarrow> its)
                in Inr (result
                     \<lparr>slots := (slots result)\<lparr>cart := Some data\<rparr>,
                      message := (case cart_message data of
                                    None \<Rightarrow> MsgCartCount count | Some m \<Rightarrow> MsgCart m),
                      confidence := 1\<rparr>))))"

text \<open>Lines 289 to 294: the \<open>clear_cart\<close> intent. Nothing catches a failing request.\<close>

definition handle_clear_cart :: "env \<Rightarrow> string option \<Rightarrow> parsed_command \<Rightarrow> py_error + parsed_command" where
  "handle_clear_cart e uid result =
     (case cart_service e uid ClearCart of
        Inl err \<Rightarrow> Inl err
      | Inr r \<Rightarrow> Inr (result\<lparr>message := MsgCleared, confidence := 1\<rparr>))"

text \<open>
  Lines 319 to 357: the action on the matched product. The two \<open>try\<close> blocks catch
  every failure of the request (and, for the addition, of \<open>response.json()\<close>).
\<close>

definition cart_action :: "env \<Rightarrow> string option \<Rightarrow> product \<Rightarrow> parsed_command \<Rightarrow> parsed_command" where
  "cart_action e uid matched_product result =
     (let qty = quantity (slots result)
      in if intent result = add_to_cart then
           (case cart_service e uid
                   (AddItem (p_name matched_product) (p_id matched_product) qty
                      (p_price matched_product) (p_image matched_product)
                      (p_category matched_product)) of
              Inr (Inr response_data) \<Rightarrow>
                result\<lparr>message :=
                  MsgAdded qty (p_name matched_product) (p_price matched_product * qty)\<rparr>
            | _ \<Rightarrow> result\<lparr>message := MsgAddedPending qty (p_name matched_product)\<rparr>)
         else if intent result = remove_from_cart then
           (case cart_service e uid
                   (RemoveItem (p_name matched_product) (p_id matched_product)) of
              Inr response \<Rightarrow> result\<lparr>message := MsgRemoved (p_name matched_product)\<rparr>
            | Inl err \<Rightarrow> result\<lparr>message := MsgRemovedPending (p_name matched_product)\<rparr>)
         else if intent result = search_product then
           result\<lparr>message :=
             MsgFound (p_name matched_product) (p_price matched_product)
               (p_category matched_product)\<rparr>
         else result)"

text \<open>Lines 366 to 376: no direct match.\<close>

definition no_direct_match :: "env \<Rightarrow> string \<Rightarrow> parsed_command \<Rightarrow> parsed_command" where
  "no_direct_match e text result =
     (let similar_products = get_similar_products (partial_ratio e) (catalog e) text 5
      in if similar_products \<noteq> [] then
           result\<lparr>recommendations := similar_products, message := MsgSimilar text,
                  confidence := 1 / 2\<rparr>
         else result\<lparr>message := MsgNoMatch text\<rparr>)"

text \<open>Lines 302 to 376: the fuzzy match and what follows it.\<close>

definition resolve_product :: "env \<Rightarrow> string option \<Rightarrow> string \<Rightarrow> parsed_command \<Rightarrow> py_error + parsed_command" where
  "resolve_product e uid text result =
     (let products = catalog e;
          product_names = map (\<lambda>p. lower (p_name p)) products;
          best_match = extractOne (token_set_ratio e) text product_names
      in case best_match of
           None \<Rightarrow> Inr (no_direct_match e text result)
         | Some (matched_name, score) \<Rightarrow>
             if score \<ge> 60 then
               (case find (\<lambda>p. lower (p_name p) = matched_name) products of
                  None \<Rightarrow> Inr (no_direct_match e text result)
                | Some matched_product \<Rightarrow>
                    (let result = result
                           \<lparr>slots := (slots result)
                              \<lparr>product_name := Some (p_name matched_product),
                               product_id := Some (p_id matched_product),
                               category := Some (p_category matched_product)\<rparr>,
                            confidence := py_round2 (float_div score 100)\<rparr>;
                         result = cart_action e uid matched_product result
                     in case get_related_recommendations products (p_id matched_product) 5 of
                          Inl err \<Rightarrow> Inl err
                        | Inr related \<Rightarrow> Inr (result\<lparr>recommendations := related\<rparr>)))
             else Inr (no_direct_match e text result))"

text \<open>
  \<open>parse_command\<close>. The result is \<open>Inl\<close> when an exception leaves the function. The
  argument \<open>text\<close> is a string (\<open>None\<close> is treated as the empty string by
  \<open>text or ""\<close>).
\<close>

definition parse_command :: "env \<Rightarrow> string \<Rightarrow> string option \<Rightarrow> py_error + parsed_command" where
  "parse_command e raw uid =
     (let text = correct_voice_input (strip (lower raw));
          result = initial_result uid
      in if text = [] then Inr (result\<lparr>message := MsgNotHeard\<rparr>)
         else
           (let result = result\<lparr>intent := detect_intent text\<rparr>
            in case extract_quantity text of
                 Inl err \<Rightarrow> Inl err
               | Inr qty \<Rightarrow>
                   (let result = result\<lparr>slots := (slots result)\<lparr>quantity := qty\<rparr>\<rparr>;
                        products = catalog e
                    in if products = [] then Inr (result\<lparr>message := MsgNoCatalog\<rparr>)
                       else if intent result = view_cart then handle_view_cart e uid result
                       else if intent result = clear_cart then handle_clear_cart e uid result
                       else if intent result = list_products then
                         Inr (result
                           \<lparr>message := MsgCatalogSize (length products),
                            recommendations :=
                              get_similar_products (partial_ratio e) products text 5,
                            confidence := 1\<rparr>)
                       else resolve_product e uid text result)))"

text \<open>The result after the intent and the quantity are set (lines 269 to 272).\<close>

definition classified_result :: "string \<Rightarrow> string option \<Rightarrow> int \<Rightarrow> parsed_command" where
  "classified_result text uid qty =
     (initial_result uid)
       \<lparr>intent := detect_intent text,
        slots := (slots (initial_result uid))\<lparr>quantity := qty\<rparr>\<rparr>"

text \<open>The result after the matched product is bound (lines 310 to 313).\<close>

definition bound_result :: "product \<Rightarrow> rat \<Rightarrow> parsed_command \<Rightarrow> parsed_command" where
  "bound_result p score result =
     result\<lparr>slots := (slots result)
               \<lparr>product_name := Some (p_name p), product_id := Some (p_id p),
                category := Some (p_category p)\<rparr>,
            confidence := py_round2 (float_div score 100)\<rparr>"

text \<open>The list \<open>product_names\<close> of line 303.\<close>

definition product_names :: "env \<Rightarrow> string list" where
  "product_names e = map (\<lambda>p. lower (p_name p)) (catalog e)"

text \<open>
  Environments for the examples. The scorer \<open>shared_word\<close> stands for the two scorers
  of the library: 100 when the two strings share a word, else 0.
\<close>

definition shared_word :: "string \<Rightarrow> string \<Rightarrow> rat" where
  "shared_word q c = (if list_ex (\<lambda>w. List.member (split c) w) (split q) then 100 else 0)"

definition unreachable_env :: env where
  "unreachable_env =
     \<lparr>catalog = example_catalog, token_set_ratio = shared_word, partial_ratio = shared_word,
      cart_service = (\<lambda>uid request. Inl RequestError)\<rparr>"

definition working_env :: env where
  "working_env =
     \<lparr>catalog = example_catalog, token_set_ratio = shared_word, partial_ratio = shared_word,
      cart_service =
        (\<lambda>uid request. Inr (Inr \<lparr>cart_items = Some [], cart_message = None\<rparr>))\<rparr>"

definition no_catalog_env :: env where
  "no_catalog_env =
     \<lparr>catalog = [], token_set_ratio = shared_word, partial_ratio = shared_word,
      cart_service =
        (\<lambda>uid request. Inr (Inr \<lparr>cart_items = Some [], cart_message = None\<rparr>))\<rparr>"

text \<open>An environment whose token-set scorer gives 97.5 to every pair.\<close>

definition fractional_env :: env where
  "fractional_env =
     \<lparr>catalog = example_catalog, token_set_ratio = (\<lambda>q c. 195 / 2),
      partial_ratio = shared_word,
      cart_service =
        (\<lambda>uid request. Inr (Inr \<lparr>cart_items = Some [], cart_message = None\<rparr>))\<rparr>"

text \<open>The confidence of a returned result, by cases on the path taken.\<close>

definition expected_confidence :: "env \<Rightarrow> string \<Rightarrow> rat" where
  "expected_confidence e text =
     (if text = [] \<or> catalog e = [] then 0
      else if detect_intent text \<in> {view_cart, clear_cart, list_products} then 1
      else (case extractOne (token_set_ratio e) text (product_names e) of
              None \<Rightarrow> 0
            | Some (name, score) \<Rightarrow>
                if 60 \<le> score then py_round2 (float_div score 100)
                else if get_similar_products (partial_ratio e) (catalog e) text 5 \<noteq> []
                  then 1 / 2
                else 0))"

section \<open>Auxiliary predicates on tokens\<close>

definition no_space :: "string \<Rightarrow> bool" where
  "no_space w \<longleftrightarrow> (\<forall>c\<in>set w. \<not> is_space c)"

text \<open>A token that a pass of the normalizer leaves as it is.\<close>

definition stable_token :: "string \<Rightarrow> bool" where
  "stable_token t \<longleftrightarrow>
     t \<noteq> [] \<and> no_space t \<and> lower t = t \<and> t \<notin> set filler_words \<and> correct_word t = t"

text \<open>A token that the loop of the normalizer appends unchanged.\<close>

definition kept_token :: "string \<Rightarrow> bool" where
  "kept_token x \<longleftrightarrow> x \<notin> set filler_words \<and> correct_word x = x"

text \<open>
  The phrases of the \<open>list_products\<close> rule that are not shadowed by a word of the
  \<open>search_product\<close> rule.
\<close>

definition live_list_phrases :: "string list" where
  "live_list_phrases = [''list'', ''available'', ''all products'']"

section \<open>Properties of quantity extraction\<close>

lemma first_word_number_in: "first_word_number tbl t = Some n \<Longrightarrow> n \<in> snd ` set tbl"
  by (induction tbl t rule: first_word_number.induct) (auto split: if_splits)

lemma word_to_num_pos: "n \<in> snd ` set word_to_num \<Longrightarrow> 1 \<le> n"
  by (auto simp: word_to_num_def)

lemma digit_search_Cons:
  "digit_search prev (c # cs) =
     (if \<not> prev \<and> is_digit c \<and>
         (dropWhile is_digit (c # cs) = [] \<or> \<not> is_word_char (hd (dropWhile is_digit (c # cs))))
      then Some (takeWhile is_digit (c # cs))
      else digit_search (is_word_char c) cs)"
  by (simp only: digit_search.simps Let_def split: if_splits) meson

lemma digit_search_digits:
  "digit_search prev t = Some ds \<Longrightarrow> ds \<noteq> [] \<and> (\<forall>c\<in>set ds. is_digit c)"
proof (induction t arbitrary: prev)
  case Nil
  then show ?case by simp
next
  case (Cons c cs)
  define hit where "hit \<longleftrightarrow> \<not> prev \<and> is_digit c \<and>
        (dropWhile is_digit (c # cs) = [] \<or> \<not> is_word_char (hd (dropWhile is_digit (c # cs))))"
  have step: "digit_search prev (c # cs) =
      (if hit then Some (takeWhile is_digit (c # cs)) else digit_search (is_word_char c) cs)"
    unfolding hit_def by (rule digit_search_Cons)
  show ?case
  proof (cases hit)
    case True
    then have "ds = takeWhile is_digit (c # cs)"
      using Cons.prems step by simp
    moreover have "is_digit c" using True hit_def by blast
    ultimately show ?thesis by (auto dest: set_takeWhileD)
  next
    case False
    then have "digit_search (is_word_char c) cs = Some ds"
      using Cons.prems step by simp
    then show ?thesis by (rule Cons.IH)
  qed
qed

lemma digit_val_range: "is_digit c \<Longrightarrow> 0 \<le> digit_val c"
  by (simp add: is_digit_def digit_val_def Let_def)

lemma digit_val_zero: "digit_val c = 0 \<longleftrightarrow> c = CHR ''0''"
proof
  assume "digit_val c = 0"
  then have "(of_char c :: nat) = of_char (CHR ''0'')" by (simp add: digit_val_def)
  then show "c = CHR ''0''" by (simp only: of_char_eq_iff)
qed (simp add: digit_val_def)

lemma foldl_digits:
  "\<forall>c\<in>set ds. is_digit c \<Longrightarrow> 0 \<le> n \<Longrightarrow>
     0 \<le> foldl (\<lambda>n c. 10 * n + digit_val c) n ds \<and>
     (foldl (\<lambda>n c. 10 * n + digit_val c) n ds = 0 \<longleftrightarrow> n = 0 \<and> set ds \<subseteq> {CHR ''0''})"
proof (induction ds arbitrary: n)
  case Nil
  then show ?case by simp
next
  case (Cons d ds)
  have d: "0 \<le> digit_val d" using Cons.prems by (simp add: digit_val_range)
  have a: "0 \<le> 10 * n + digit_val d" using d Cons.prems by simp
  have b: "10 * n + digit_val d = 0 \<longleftrightarrow> n = 0 \<and> d = CHR ''0''"
    using d Cons.prems(2) digit_val_zero[of d] by auto
  have c: "\<forall>c\<in>set ds. is_digit c" using Cons.prems(1) by simp
  show ?case using Cons.IH[OF c a] b by simp
qed

text \<open>
  Claim C1. The three sample commands of the specification, evaluated on the code:
  \<open>"add two bananas"\<close> gives 2 and \<open>"add apple"\<close> gives 1, but \<open>"add 5 apples"\<close>
  gives 1 and not 5: the table entry \<open>"a"\<close> is matched by substring containment, the
  letter occurs in \<open>"add"\<close>, and the loop returns before the digit search is reached.
\<close>

theorem extract_quantity_samples:
  "extract_quantity ''add two bananas'' = Inr 2 \<and>
   extract_quantity ''add 5 apples'' = Inr 1 \<and>
   extract_quantity ''add apple'' = Inr 1"
  by code_simp

text \<open>
  Claim C2, as stated: the result is at least 1 for every text. It fails on the digit
  fallback: a text without a number word whose first standalone digit run is \<open>0\<close>
  yields 0.
\<close>

theorem extract_quantity_zero_counterexample:
  "extract_quantity ''buy 0 milk'' = Inr 0"
  by code_simp

text \<open>
  Claim C2, amended: for every text the function either returns an integer that is not
  negative or raises \<open>ValueError\<close>. It raises exactly when no number word of the table
  occurs in the lower-cased text and the first standalone digit run of the text has more
  than 4300 digits. A returned integer is 0 exactly when no number word occurs and that
  digit run consists of zeros only; in every other case it is at least 1.
\<close>

theorem extract_quantity_nonneg:
  "(extract_quantity t = Inl err \<longleftrightarrow>
      err = ValueError \<and> first_word_number word_to_num (lower t) = None \<and>
      (\<exists>ds. re_search_number t = Some ds \<and> int_max_str_digits < length ds)) \<and>
   (extract_quantity t = Inr n \<longrightarrow>
      0 \<le> n \<and>
      (n = 0 \<longleftrightarrow>
         first_word_number word_to_num (lower t) = None \<and>
         (\<exists>ds. re_search_number t = Some ds \<and> set ds \<subseteq> {CHR ''0''})))"
proof (cases "first_word_number word_to_num (lower t)")
  case (Some m)
  then have "1 \<le> m" using first_word_number_in word_to_num_pos by blast
  then show ?thesis using Some by (auto simp: extract_quantity_def)
next
  case None
  show ?thesis
  proof (cases "re_search_number t")
    case N: None
    then show ?thesis using None by (simp add: extract_quantity_def)
  next
    case (Some ds)
    then have "\<forall>c\<in>set ds. is_digit c"
      using digit_search_digits by (auto simp: re_search_number_def)
    from foldl_digits[OF this, of 0]
    have v: "0 \<le> digits_value ds" "digits_value ds = 0 \<longleftrightarrow> set ds \<subseteq> {CHR ''0''}"
      by (simp_all add: digits_value_def)
    show ?thesis
    proof (cases "int_max_str_digits < length ds")
      case True
      then show ?thesis using None Some
        by (auto simp: extract_quantity_def int_of_digits_def)
    next
      case False
      then have "extract_quantity t = Inr (digits_value ds)"
        using None Some by (simp add: extract_quantity_def int_of_digits_def)
      then show ?thesis using None Some False v by auto
    qed
  qed
qed

lemma contains_sublist: "contains needle t \<longleftrightarrow> sublist needle t"
  by (induction t) (simp_all add: sublist_Cons_right)

lemma contains_set: "contains w t \<Longrightarrow> set w \<subseteq> set t"
  by (simp add: contains_sublist set_mono_sublist)

lemma no_word_in_nines:
  "first_word_number word_to_num (lower (replicate n (CHR ''9''))) = None"
proof -
  have l: "lower (replicate n (CHR ''9'')) = replicate n (CHR ''9'')"
    by (simp add: lower_def lower_char_def)
  have r: "set (replicate n (CHR ''9'')) \<subseteq> {CHR ''9''}" by auto
  have "\<not> contains w (replicate n (CHR ''9''))" if "\<not> set w \<subseteq> {CHR ''9''}" for w
    using that contains_set[of w "replicate n (CHR ''9'')"] r by blast
  then show ?thesis unfolding l by (simp add: word_to_num_def)
qed

lemma search_in_nines:
  "re_search_number (replicate (Suc n) (CHR ''9'')) = Some (replicate (Suc n) (CHR ''9''))"
proof -
  have d: "is_digit (CHR ''9'')" by (simp add: is_digit_def)
  have "takeWhile is_digit (replicate (Suc n) (CHR ''9'')) = replicate (Suc n) (CHR ''9'')"
    "dropWhile is_digit (replicate (Suc n) (CHR ''9'')) = []"
    using d by (simp_all add: takeWhile_eq_all_conv)
  then show ?thesis
    unfolding re_search_number_def replicate_Suc[symmetric]
    by (simp only: replicate_Suc digit_search_Cons d) simp
qed

lemma long_digit_run:
  "extract_quantity (replicate 4301 (CHR ''9'')) = Inl ValueError"
proof -
  have "re_search_number (replicate (Suc 4300) (CHR ''9'')) =
      Some (replicate (Suc 4300) (CHR ''9''))"
    by (rule search_in_nines)
  then have "re_search_number (replicate 4301 (CHR ''9'')) = Some (replicate 4301 (CHR ''9''))"
    by simp
  then show ?thesis
    by (simp add: extract_quantity_def no_word_in_nines int_of_digits_def
        int_max_str_digits_def)
qed

theorem extract_quantity_nonneg_witness:
  "extract_quantity ''get 00 milk'' = Inr 0 \<and>
   (\<exists>ds. re_search_number (replicate 4301 (CHR ''9'')) = Some ds \<and>
      int_max_str_digits < length ds)"
proof -
  have a: "first_word_number word_to_num (lower ''get 00 milk'') = None" by code_simp
  have b: "re_search_number ''get 00 milk'' = Some ''00''" by code_simp
  have c: "extract_quantity ''get 00 milk'' = Inr (digits_value ''00'')"
    using a b by (simp add: extract_quantity_def int_of_digits_def int_max_str_digits_def)
  have "extract_quantity ''get 00 milk'' = Inr 0"
    using extract_quantity_nonneg[of "''get 00 milk''" ValueError "digits_value ''00''"] a b c
    by simp
  moreover have "\<exists>ds. re_search_number (replicate 4301 (CHR ''9'')) = Some ds \<and>
      int_max_str_digits < length ds"
    using extract_quantity_nonneg[of "replicate 4301 (CHR ''9'')" ValueError 0]
      long_digit_run by simp
  ultimately show ?thesis by simp
qed

section \<open>Properties of the string primitives\<close>

lemma split_words_no_space:
  "no_space u \<Longrightarrow> split_words w (u @ rest) = split_words (w @ u) rest"
  by (induction u arbitrary: w) (simp_all add: no_space_def)

lemma split_words_space:
  "is_space c \<Longrightarrow> split_words w (xs @ c # ys) = split_words w xs @ split_words [] ys"
  by (induction xs arbitrary: w) simp_all

lemma split_append_space:
  "is_space c \<Longrightarrow> split (xs @ c # ys) = split xs @ split ys"
  by (simp add: split_def split_words_space)

lemma split_word: "w \<noteq> [] \<Longrightarrow> no_space w \<Longrightarrow> split w = [w]"
  using split_words_no_space[of w "[]" "[]"] by (simp add: split_def)

lemma split_words_tokens:
  "t \<in> set (split_words w xs) \<Longrightarrow> no_space w \<Longrightarrow>
     t \<noteq> [] \<and> no_space t \<and> set t \<subseteq> set w \<union> set xs"
proof (induction xs arbitrary: w)
  case Nil
  then show ?case by (auto split: if_splits)
next
  case (Cons c cs)
  show ?case
  proof (cases "is_space c")
    case True
    then have "t = w \<and> w \<noteq> [] \<or> t \<in> set (split_words [] cs)"
      using Cons.prems(1) by (auto split: if_splits)
    then show ?thesis
    proof
      assume "t = w \<and> w \<noteq> []"
      then show ?thesis using Cons.prems(2) by auto
    next
      assume "t \<in> set (split_words [] cs)"
      from Cons.IH[OF this] show ?thesis by (auto simp: no_space_def)
    qed
  next
    case False
    then have "t \<in> set (split_words (w @ [c]) cs)" using Cons.prems(1) by simp
    moreover have "no_space (w @ [c])" using False Cons.prems(2) by (simp add: no_space_def)
    ultimately show ?thesis using Cons.IH by fastforce
  qed
qed

lemma split_tokens:
  "t \<in> set (split s) \<Longrightarrow> t \<noteq> [] \<and> no_space t \<and> set t \<subseteq> set s"
  using split_words_tokens[of t "[]" s] by (simp add: split_def no_space_def)

lemma is_space_blank: "is_space (CHR '' '')"
  by (simp add: is_space_def)

lemma split_join:
  "\<forall>t\<in>set ts. t \<noteq> [] \<and> no_space t \<Longrightarrow> split (join '' '' ts) = ts"
proof (induction "'' ''" ts rule: join.induct)
  case 1
  then show ?case by (simp add: split_def)
next
  case (2 w)
  then show ?case by (simp add: split_word)
next
  case (3 w v ws)
  have "split (w @ CHR '' '' # join '' '' (v # ws)) = split w @ split (join '' '' (v # ws))"
    by (rule split_append_space[OF is_space_blank])
  then show ?case using 3 by (simp add: split_word)
qed



section \<open>Properties of the normalizer\<close>

lemma lower_char_idem: "lower_char (lower_char c) = lower_char c"
proof (cases "65 \<le> (of_char c :: nat) \<and> (of_char c :: nat) \<le> 90")
  case True
  then have "(of_char (char_of ((of_char c :: nat) + 32)) :: nat) = of_char c + 32" by simp
  then show ?thesis using True by (simp add: lower_char_def Let_def)
next
  case False
  then show ?thesis by (auto simp add: lower_char_def Let_def)
qed

lemma lower_idem: "lower (lower s) = lower s"
  by (simp add: lower_def lower_char_idem)

lemma lower_fixed: "(\<forall>c\<in>set s. lower_char c = c) \<Longrightarrow> lower s = s"
  by (simp add: lower_def map_idI)

lemma lower_join: "lower (join sep ts) = join (lower sep) (map lower ts)"
  by (induction sep ts rule: join.induct) (simp_all add: lower_def)


lemma correction_values_stable:
  "list_all (\<lambda>v. v \<noteq> [] \<and> list_all (\<lambda>c. \<not> is_space c) v \<and> lower v = v \<and>
       \<not> List.member filler_words v \<and> correct_word v = v) (map snd COMMON_VOICE_CORRECTIONS)"
  by code_simp


lemma correct_words_stable:
  "\<forall>t\<in>set ts. stable_token t \<Longrightarrow> correct_words ts = ts"
  by (induction ts) (simp_all add: stable_token_def)

lemma correct_words_tokens:
  "t \<in> set (correct_words ws) \<Longrightarrow> \<exists>w\<in>set ws. w \<notin> set filler_words \<and> t = correct_word w"
  by (induction ws) (auto split: if_splits)

lemma correction_value_stable:
  assumes "map_of COMMON_VOICE_CORRECTIONS w = Some v"
  shows "stable_token v"
proof -
  have "v \<in> set (map snd COMMON_VOICE_CORRECTIONS)"
    using map_of_SomeD[OF assms] by force
  then show ?thesis
    using correction_values_stable
    by (simp only: list_all_iff stable_token_def no_space_def List.member_iff) blast
qed

lemma split_lower_tokens:
  assumes "w \<in> set (split (lower s))"
  shows "w \<noteq> [] \<and> no_space w \<and> lower w = w"
proof -
  from split_tokens[OF assms] have w: "w \<noteq> []" "no_space w" "set w \<subseteq> set (lower s)" by auto
  have "\<forall>c\<in>set w. lower_char c = c"
    using w(3) by (auto simp: lower_def lower_char_idem)
  then show ?thesis using w by (simp add: lower_fixed)
qed

lemma normalized_tokens_stable:
  assumes "t \<in> set (correct_words (split (lower s)))"
  shows "stable_token t"
proof -
  from correct_words_tokens[OF assms] obtain w where
    w: "w \<in> set (split (lower s))" "w \<notin> set filler_words" "t = correct_word w" by blast
  show ?thesis
  proof (cases "map_of COMMON_VOICE_CORRECTIONS w")
    case None
    then have "t = w" using w(3) by (simp add: correct_word_def)
    then show ?thesis
      using split_lower_tokens[OF w(1)] w(2) None by (simp add: stable_token_def correct_word_def)
  next
    case (Some v)
    then have "t = v" using w(3) by (simp add: correct_word_def)
    then show ?thesis using correction_value_stable[OF Some] by simp
  qed
qed

lemma normalized_fixed:
  assumes "t = correct_voice_input s"
  shows "lower t = t" and "correct_voice_input t = t"
proof -
  define ts where "ts = correct_words (split (lower s))"
  have st: "\<forall>w\<in>set ts. stable_token w"
    unfolding ts_def using normalized_tokens_stable by blast
  have t: "t = join '' '' ts" using assms by (simp add: correct_voice_input_def ts_def)
  have "map lower ts = ts"
    using st by (simp add: stable_token_def map_idI)
  moreover have "lower '' '' = '' ''"
    by (simp add: lower_def lower_char_def)
  ultimately show l: "lower t = t"
    unfolding t by (simp only: lower_join)
  have "split (join '' '' ts) = ts"
    using st by (intro split_join) (simp add: stable_token_def)
  moreover have "correct_words ts = ts"
    using st by (rule correct_words_stable)
  ultimately show "correct_voice_input t = t"
    using l by (simp add: correct_voice_input_def t)
qed

text \<open>
  Claim C10. The normalizer is idempotent: every token of its output is non-empty, free
  of white space, lower-case, no filler word, and left unchanged by the correction
  table, so that a second pass splits the output into the same tokens and keeps each.
\<close>

theorem correct_voice_input_idempotent:
  "correct_voice_input (correct_voice_input s) = correct_voice_input s"
proof -
  define ts where "ts = correct_words (split (lower s))"
  have st: "\<forall>t\<in>set ts. stable_token t"
    unfolding ts_def using normalized_tokens_stable by blast
  have "map lower ts = ts"
    using st by (simp add: stable_token_def map_idI)
  moreover have "lower '' '' = '' ''"
    by (simp add: lower_def lower_char_def)
  ultimately have "lower (join '' '' ts) = join '' '' ts"
    by (simp only: lower_join)
  moreover have "split (join '' '' ts) = ts"
    using st by (intro split_join) (simp add: stable_token_def)
  moreover have "correct_words ts = ts"
    using st by (rule correct_words_stable)
  ultimately show ?thesis
    by (simp add: correct_voice_input_def ts_def[symmetric])
qed


theorem correct_voice_input_idempotent_witness:
  "correct_voice_input (correct_voice_input ''Add  the Apples to my Kart'') = ''add apple cart''"
proof -
  have "correct_voice_input ''Add  the Apples to my Kart'' = ''add apple cart''"
    by code_simp
  then show ?thesis
    using correct_voice_input_idempotent[of "''Add  the Apples to my Kart''"] by simp
qed

section \<open>Properties of the intent classifier\<close>

lemma split_words_last:
  "a \<noteq> [] \<Longrightarrow> no_space a \<Longrightarrow> \<exists>A x. split_words w (ps @ a) = A @ [x] \<and> suffix a x"
proof (induction ps arbitrary: w)
  case Nil
  have "split_words w a = [w @ a]"
    using split_words_no_space[OF Nil(2), of w "[]"] Nil(1) by simp
  then show ?case by (auto simp: suffix_def)
next
  case (Cons c ps)
  show ?case
  proof (cases "is_space c")
    case True
    from Cons.IH[OF Cons.prems, of "[]"] obtain A x where
      "split_words [] (ps @ a) = A @ [x]" "suffix a x" by blast
    then show ?thesis using True
      by (cases "w = []") (auto intro: exI[of _ "w # A"])
  next
    case False
    then show ?thesis using Cons.IH[OF Cons.prems, of "w @ [c]"] by simp
  qed
qed

lemma split_words_first:
  "w \<noteq> [] \<Longrightarrow> \<exists>y B. split_words w ss = y # B \<and> prefix w y"
proof (induction ss arbitrary: w)
  case Nil
  then show ?case by simp
next
  case (Cons c ss)
  show ?case
  proof (cases "is_space c")
    case True
    then show ?thesis using Cons.prems by simp
  next
    case False
    from Cons.IH[of "w @ [c]"] obtain y B where
      "split_words (w @ [c]) ss = y # B" "prefix (w @ [c]) y" by auto
    then show ?thesis using False by (auto dest: append_prefixD)
  qed
qed

lemma correct_words_append:
  "correct_words (xs @ ys) = correct_words xs @ correct_words ys"
  by (induction xs) simp_all

lemma join_Cons: "ws \<noteq> [] \<Longrightarrow> join sep (w # ws) = w @ sep @ join sep ws"
  by (cases ws) simp_all

lemma join_prefix: "prefix y (join sep (y # B))"
  by (cases B) simp_all

lemma join_sublist: "sublist (x @ sep @ y) (join sep (A @ x # y # B))"
proof (induction A)
  case Nil
  obtain r where "join sep (y # B) = y @ r" using join_prefix[of y sep B] by (auto simp: prefix_def)
  then have "join sep (x # y # B) = [] @ (x @ sep @ y) @ r" by simp
  then show ?case unfolding sublist_def by (metis append_Nil)
next
  case (Cons a A)
  have "join sep ((a # A) @ x # y # B) = (a @ sep) @ join sep (A @ x # y # B)"
    by (simp add: join_Cons)
  then show ?case using Cons.IH by (metis sublist_append_leftI sublist_order.order_trans)
qed


lemma not_kept_token:
  "\<not> kept_token x \<Longrightarrow> x \<in> set (filler_words @ map fst COMMON_VOICE_CORRECTIONS)"
proof -
  assume "\<not> kept_token x"
  then have "x \<in> set filler_words \<or> map_of COMMON_VOICE_CORRECTIONS x \<noteq> None"
    by (auto simp: kept_token_def correct_word_def)
  then show ?thesis by (auto simp: map_of_eq_None_iff)
qed

lemma cart_phrase_words_kept:
  "list_all (\<lambda>k. \<not> suffix ''show'' k \<and> \<not> suffix ''clear'' k \<and> \<not> suffix ''empty'' k \<and>
       \<not> prefix ''cart'' k) (filler_words @ map fst COMMON_VOICE_CORRECTIONS)"
  by code_simp

lemma kept_show: "suffix ''show'' x \<Longrightarrow> kept_token x"
  using cart_phrase_words_kept not_kept_token[of x] by (auto simp only: list_all_iff)

lemma kept_clear: "suffix ''clear'' x \<Longrightarrow> kept_token x"
  using cart_phrase_words_kept not_kept_token[of x] by (auto simp only: list_all_iff)

lemma kept_empty: "suffix ''empty'' x \<Longrightarrow> kept_token x"
  using cart_phrase_words_kept not_kept_token[of x] by (auto simp only: list_all_iff)

lemma kept_cart: "prefix ''cart'' x \<Longrightarrow> kept_token x"
  using cart_phrase_words_kept not_kept_token[of x] by (auto simp only: list_all_iff)

lemma phrase_survives:
  assumes a: "a \<noteq> []" "no_space a" and b: "b \<noteq> []" "no_space b"
    and ka: "\<And>x. suffix a x \<Longrightarrow> kept_token x"
    and kb: "\<And>y. prefix b y \<Longrightarrow> kept_token y"
    and sub: "sublist (a @ '' '' @ b) (lower t)"
  shows "sublist (a @ '' '' @ b) (correct_voice_input t)"
proof -
  from sub obtain ps ss where "lower t = ps @ (a @ '' '' @ b) @ ss"
    by (auto simp: sublist_def)
  then have lt: "lower t = (ps @ a) @ CHR '' '' # (b @ ss)" by simp
  have sp: "split (lower t) = split (ps @ a) @ split (b @ ss)"
    unfolding lt by (rule split_append_space[OF is_space_blank])
  obtain A x where A: "split (ps @ a) = A @ [x]" "suffix a x"
    using split_words_last[OF a, of "[]" ps] by (auto simp: split_def)
  have "split (b @ ss) = split_words b ss"
    using split_words_no_space[OF b(2), of "[]" ss] by (simp add: split_def)
  then obtain y B where B: "split (b @ ss) = y # B" "prefix b y"
    using split_words_first[OF b(1), of ss] by auto
  have kx: "kept_token x" and ky: "kept_token y" using A(2) B(2) ka kb by auto
  have "correct_words (split (lower t)) = correct_words A @ x # y # correct_words B"
    using kx ky by (simp add: sp A(1) B(1) correct_words_append kept_token_def)
  then have "sublist (x @ '' '' @ y) (correct_voice_input t)"
    by (simp only: correct_voice_input_def join_sublist)
  moreover have "sublist (a @ '' '' @ b) (x @ '' '' @ y)"
  proof -
    obtain x0 where "x = x0 @ a" using A(2) by (auto simp: suffix_def)
    moreover obtain y0 where "y = b @ y0" using B(2) by (auto simp: prefix_def)
    ultimately have "x @ '' '' @ y = x0 @ (a @ '' '' @ b) @ y0" by simp
    then show ?thesis unfolding sublist_def by blast
  qed
  ultimately show ?thesis by (rule sublist_order.order_trans[rotated])
qed

lemma sublist_lower: "sublist p t \<Longrightarrow> sublist (lower p) (lower t)"
proof -
  assume "sublist p t"
  then obtain ps ss where "t = ps @ p @ ss" by (auto simp: sublist_def)
  then have "lower t = lower ps @ lower p @ lower ss" by (simp add: lower_def)
  then show ?thesis unfolding sublist_def by blast
qed

lemma any_inI: "p \<in> set phrases \<Longrightarrow> contains p t \<Longrightarrow> any_in phrases t"
  by (auto simp: any_in_def list_ex_iff)

lemma show_cart_survives:
  assumes "contains ''show cart'' t"
  shows "contains ''show cart'' (correct_voice_input (lower t))"
proof -
  have "sublist (lower ''show cart'') (lower t)"
    using assms by (simp only: contains_sublist sublist_lower)
  moreover have "lower ''show cart'' = ''show'' @ '' '' @ ''cart''"
    by (simp add: lower_def lower_char_def)
  ultimately have "sublist (''show'' @ '' '' @ ''cart'') (lower (lower t))"
    by (simp only: lower_idem)
  then have "sublist (''show'' @ '' '' @ ''cart'') (correct_voice_input (lower t))"
    by (intro phrase_survives kept_show kept_cart) (simp_all add: no_space_def is_space_def)
  then show ?thesis by (simp add: contains_sublist)
qed

text \<open>
  Claim C4. Every text that contains \<open>"show cart"\<close> is classified as \<open>view_cart\<close>:
  no filler word and no key of the correction table ends in \<open>"show"\<close> or starts with
  \<open>"cart"\<close>, so the two tokens around the blank survive the normalizer, and the
  \<open>view_cart\<close> rule is tested first.
\<close>

theorem show_cart_view_cart:
  "contains ''show cart'' t \<Longrightarrow> detect_intent t = view_cart"
proof -
  assume "contains ''show cart'' t"
  then have "contains ''show cart'' (correct_voice_input (lower t))"
    by (rule show_cart_survives)
  then have "any_in view_cart_phrases (correct_voice_input (lower t))"
    by (intro any_inI[of "''show cart''"]) (simp_all add: view_cart_phrases_def)
  then show ?thesis by (simp add: detect_intent_def)
qed


lemma cart_survives:
  assumes a: "a = ''clear'' \<or> a = ''empty''" and sub: "contains (a @ '' cart'') t"
  shows "contains (a @ '' cart'') (correct_voice_input (lower t))"
proof -
  have la: "lower (a @ '' cart'') = a @ '' '' @ ''cart''"
    using a by (auto simp: lower_def lower_char_def)
  have "sublist (lower (a @ '' cart'')) (lower t)"
    using sub by (simp only: contains_sublist sublist_lower)
  then have sub': "sublist (a @ '' '' @ ''cart'') (lower (lower t))"
    by (simp only: lower_idem la)
  have a1: "a \<noteq> []" and a2: "no_space a"
    using a by (auto simp: no_space_def is_space_def)
  have c1: "''cart'' \<noteq> []" and c2: "no_space ''cart''"
    by (simp_all add: no_space_def is_space_def)
  have ka: "\<And>x. suffix a x \<Longrightarrow> kept_token x" using a kept_clear kept_empty by blast
  have "sublist (a @ '' '' @ ''cart'') (correct_voice_input (lower t))"
    using a1 a2 c1 c2 ka kept_cart sub' by (rule phrase_survives)
  then show ?thesis by (simp add: contains_sublist)
qed

theorem show_cart_view_cart_witness:
  "contains ''show cart'' ''please show cart and find milk'' \<and>
   detect_intent ''please show cart and find milk'' = view_cart"
proof -
  have c: "contains ''show cart'' ''please show cart and find milk''" by code_simp
  then show ?thesis using show_cart_view_cart[OF c] by simp
qed

text \<open>
  Claim C5, as stated: a text that contains \<open>"clear cart"\<close> or \<open>"empty cart"\<close> is
  always classified as \<open>clear_cart\<close>. It fails when a \<open>view_cart\<close> phrase occurs as
  well, since that rule is tested first.
\<close>

theorem clear_cart_counterexample:
  "contains ''clear cart'' ''show cart and clear cart'' \<and>
   detect_intent ''show cart and clear cart'' \<noteq> clear_cart"
  by code_simp

text \<open>
  Claim C5, amended: a text that contains \<open>"clear cart"\<close> or \<open>"empty cart"\<close> is
  classified as \<open>clear_cart\<close>, whatever else it contains (the word \<open>"remove"\<close>
  included), unless its normalized form contains a \<open>view_cart\<close> phrase; then it is
  classified as \<open>view_cart\<close>.
\<close>

theorem clear_cart_unless_view_cart:
  assumes "contains ''clear cart'' t \<or> contains ''empty cart'' t"
  shows "detect_intent t =
     (if any_in view_cart_phrases (correct_voice_input (lower t)) then view_cart
      else clear_cart)"
proof -
  have "contains ''clear cart'' (correct_voice_input (lower t)) \<or>
        contains ''empty cart'' (correct_voice_input (lower t))"
    using assms cart_survives[of "''clear''" t] cart_survives[of "''empty''" t] by auto
  then have "any_in clear_cart_phrases (correct_voice_input (lower t))"
    by (auto intro: any_inI[of "''clear cart''"] any_inI[of "''empty cart''"]
        simp: clear_cart_phrases_def)
  then show ?thesis by (simp add: detect_intent_def)
qed

theorem clear_cart_unless_view_cart_witness:
  "contains ''empty cart'' ''remove and empty cart'' \<and>
   detect_intent ''remove and empty cart'' = clear_cart"
proof -
  have c: "contains ''empty cart'' ''remove and empty cart''" by code_simp
  have "\<not> any_in view_cart_phrases (correct_voice_input (lower ''remove and empty cart''))"
    by code_simp
  then show ?thesis
    using clear_cart_unless_view_cart[of "''remove and empty cart''"] c by simp
qed


lemma contains_trans: "contains a b \<Longrightarrow> contains b c \<Longrightarrow> contains a c"
  unfolding contains_sublist by (rule sublist_order.order_trans)

lemma any_in_Cons: "any_in (p # ps) t \<longleftrightarrow> contains p t \<or> any_in ps t"
  by (simp add: any_in_def)

lemma any_in_Nil: "any_in [] t \<longleftrightarrow> False"
  by (simp add: any_in_def)

lemma shadowed_list_phrases:
  assumes "\<not> any_in search_words n"
  shows "any_in list_phrases n \<longleftrightarrow> any_in live_list_phrases n"
proof -
  have s1: "contains ''show'' ''show all''" by code_simp
  have s2: "contains ''do you have'' ''what do you have''" by code_simp
  have "\<not> contains ''show'' n" "\<not> contains ''do you have'' n"
    using assms by (simp_all add: search_words_def any_in_Cons)
  then have "\<not> contains ''show all'' n" "\<not> contains ''what do you have'' n"
    using contains_trans[OF s1] contains_trans[OF s2] by blast+
  then show ?thesis
    by (simp add: list_phrases_def live_list_phrases_def any_in_Cons any_in_Nil)
qed

text \<open>
  Claim C6, as stated: no text is classified as \<open>list_products\<close>. The text
  \<open>"list"\<close> is.
\<close>

theorem list_products_counterexample: "detect_intent ''list'' = list_products"
  by code_simp

text \<open>
  Claim C6, amended: the \<open>list_products\<close> rule is reachable. A text is classified as
  \<open>list_products\<close> exactly when its normalized form matches none of the five earlier
  rules and contains \<open>"list"\<close>, \<open>"available"\<close> or \<open>"all products"\<close>; only the
  phrases \<open>"show all"\<close> and \<open>"what do you have"\<close> of the rule are dead, shadowed by
  the words \<open>"show"\<close> and \<open>"do you have"\<close> of the \<open>search_product\<close> rule.
\<close>

theorem list_products_reachable:
  "detect_intent t = list_products \<longleftrightarrow>
     (let n = correct_voice_input (lower t) in
        \<not> any_in view_cart_phrases n \<and> \<not> any_in clear_cart_phrases n \<and>
        \<not> any_in add_words n \<and> \<not> any_in remove_words n \<and> \<not> any_in search_words n \<and>
        any_in live_list_phrases n)"
  using shadowed_list_phrases[of "correct_voice_input (lower t)"]
  by (simp add: detect_intent_def Let_def)

theorem list_products_reachable_witness:
  "detect_intent ''what is available'' = list_products \<and>
   detect_intent ''show all'' \<noteq> list_products \<and>
   detect_intent ''what do you have'' \<noteq> list_products"
proof -
  have "any_in live_list_phrases (correct_voice_input (lower ''what is available''))"
       "\<not> any_in view_cart_phrases (correct_voice_input (lower ''what is available''))"
       "\<not> any_in clear_cart_phrases (correct_voice_input (lower ''what is available''))"
       "\<not> any_in add_words (correct_voice_input (lower ''what is available''))"
       "\<not> any_in remove_words (correct_voice_input (lower ''what is available''))"
       "\<not> any_in search_words (correct_voice_input (lower ''what is available''))"
    by code_simp+
  moreover have "any_in search_words (correct_voice_input (lower ''show all''))"
       "any_in search_words (correct_voice_input (lower ''what do you have''))"
    by code_simp+
  ultimately show ?thesis
    using list_products_reachable[of "''what is available''"]
      list_products_reachable[of "''show all''"]
      list_products_reachable[of "''what do you have''"]
    by (simp add: Let_def)
qed

section \<open>Properties of the floating-point operations\<close>

lemma bitlen_powi:
  assumes "0 < p"
  shows "2 powi (bitlen p - 1) \<le> (of_int p :: rat)" "(of_int p :: rat) < 2 powi (bitlen p)"
proof -
  have b: "2 ^ nat (bitlen p - 1) \<le> p" "p < 2 ^ nat (bitlen p)"
    using bitlen_bounds[OF assms] by simp_all
  have pos: "1 \<le> bitlen p" using assms bitlen_eq_zero_iff[of p] bitlen_nonneg[of p] by linarith
  have "(of_int (2 ^ nat (bitlen p - 1)) :: rat) \<le> of_int p" using b(1) by (simp only: of_int_le_iff)
  then show "2 powi (bitlen p - 1) \<le> (of_int p :: rat)" using pos by (simp add: power_int_def)
  have "(of_int p :: rat) < of_int (2 ^ nat (bitlen p))" using b(2) by (simp only: of_int_less_iff)
  then show "(of_int p :: rat) < 2 powi (bitlen p)" using pos by (simp add: power_int_def)
qed

lemma binade_bounds:
  assumes "x \<noteq> 0"
  shows "2 powi (binade x) \<le> \<bar>x\<bar>" "\<bar>x\<bar> < 2 powi (binade x + 1)"
proof -
  obtain p q where pq: "quotient_of \<bar>x\<bar> = (p, q)" by (cases "quotient_of \<bar>x\<bar>")
  have q: "0 < q" using quotient_of_denom_pos[OF pq] .
  have x: "\<bar>x\<bar> = of_int p / of_int q" using quotient_of_div[OF pq] .
  have p: "0 < p"
  proof (rule ccontr)
    assume "\<not> 0 < p"
    then have "(of_int p :: rat) \<le> 0" by simp
    then have "\<bar>x\<bar> \<le> 0" using q unfolding x by (simp add: divide_le_0_iff)
    then show False using assms by simp
  qed
  define d where "d = bitlen p - bitlen q"
  note P = bitlen_powi[OF p] and Q = bitlen_powi[OF q]
  have two: "(0::rat) < 2 powi k" for k by simp
  have "\<bar>x\<bar> < 2 powi (bitlen p) / 2 powi (bitlen q - 1)"
    unfolding x using P(2) Q(1) p two[of "bitlen q - 1"] by (intro frac_less) simp_all
  also have "\<dots> = 2 powi (d + 1)"
    unfolding d_def by (simp add: power_int_diff[symmetric] algebra_simps)
  finally have up: "\<bar>x\<bar> < 2 powi (d + 1)" .
  have "2 powi (bitlen p - 1) / 2 powi (bitlen q) < \<bar>x\<bar>"
    unfolding x using P(1) Q(2) q two[of "bitlen p - 1"] by (intro frac_less2) simp_all
  moreover have "2 powi (bitlen p - 1) / 2 powi (bitlen q) = (2::rat) powi (d - 1)"
    unfolding d_def by (simp add: power_int_diff[symmetric] algebra_simps)
  ultimately have lo: "2 powi (d - 1) < \<bar>x\<bar>" by simp
  have b: "binade x = (if 2 powi d \<le> \<bar>x\<bar> then d else d - 1)"
    by (simp add: binade_def pq d_def Let_def)
  show "2 powi (binade x) \<le> \<bar>x\<bar>" using lo by (simp add: b)
  show "\<bar>x\<bar> < 2 powi (binade x + 1)" using up by (auto simp: b)
qed

lemma binade_le_iff:
  assumes "x \<noteq> 0"
  shows "k \<le> binade x \<longleftrightarrow> 2 powi k \<le> \<bar>x\<bar>"
proof
  assume "k \<le> binade x"
  then have "(2::rat) powi k \<le> 2 powi (binade x)" by (simp add: power_int_increasing)
  then show "2 powi k \<le> \<bar>x\<bar>" using binade_bounds(1)[OF assms] by linarith
next
  assume "2 powi k \<le> \<bar>x\<bar>"
  then have "(2::rat) powi k < 2 powi (binade x + 1)" using binade_bounds(2)[OF assms] by linarith
  moreover have "(2::rat) powi (binade x + 1) \<le> 2 powi k" if "binade x + 1 \<le> k"
    using that by (simp add: power_int_increasing)
  ultimately have "k < binade x + 1" by force
  then show "k \<le> binade x" by simp
qed

lemma binade_less_iff:
  assumes "x \<noteq> 0"
  shows "binade x < k \<longleftrightarrow> \<bar>x\<bar> < 2 powi k"
  using binade_le_iff[OF assms, of k] by linarith

lemma round_half_even_error: "\<bar>of_int (round_half_even z) - z\<bar> \<le> 1 / 2"
proof -
  have "of_int \<lfloor>z\<rfloor> \<le> z" "z < of_int \<lfloor>z\<rfloor> + 1" by linarith+
  then show ?thesis by (auto simp: round_half_even_def Let_def)
qed

lemma round_half_even_le: "z < of_int N + 1 / 2 \<Longrightarrow> round_half_even z \<le> N"
proof -
  assume a: "z < of_int N + 1 / 2"
  have f: "of_int \<lfloor>z\<rfloor> \<le> z" by linarith
  have "\<lfloor>z\<rfloor> \<le> N" using a by (simp add: floor_le_iff)
  moreover have "z - of_int \<lfloor>z\<rfloor> < 1 / 2" if "\<lfloor>z\<rfloor> = N" using a that by simp
  ultimately show ?thesis by (cases "\<lfloor>z\<rfloor> = N") (auto simp: round_half_even_def Let_def)
qed

lemma round_half_even_ge: "of_int N - 1 / 2 < z \<Longrightarrow> N \<le> round_half_even z"
proof -
  assume a: "of_int N - 1 / 2 < z"
  have f: "z < of_int \<lfloor>z\<rfloor> + 1" by linarith
  have "of_int N - 1 < z" using a by linarith
  then have "of_int (N - 1) < z" by simp
  then have n: "N - 1 \<le> \<lfloor>z\<rfloor>" by (simp only: le_floor_iff less_imp_le)
  have "1 / 2 < z - of_int \<lfloor>z\<rfloor>" if "\<lfloor>z\<rfloor> = N - 1" using a that by simp
  then show ?thesis using n by (cases "\<lfloor>z\<rfloor> = N - 1") (auto simp: round_half_even_def Let_def)
qed

lemma round_half_even_of_int: "round_half_even (of_int N) = N"
  by (simp add: round_half_even_def)

lemma nearest_double_unfold:
  "nearest_double x =
     of_int (round_half_even (x / 2 powi (max (binade x) (- 1022) - 52))) *
       2 powi (max (binade x) (- 1022) - 52)"
  by (simp add: nearest_double_def Let_def)

lemma grid_point:
  assumes "i \<le> j"
  shows "of_int M * 2 powi j / 2 powi i = (of_int (M * 2 ^ nat (j - i)) :: rat)"
proof -
  have "(2::rat) powi j / 2 powi i = 2 powi (j - i)" by (simp add: power_int_diff)
  also have "\<dots> = 2 ^ nat (j - i)" using assms by (simp add: power_int_def)
  finally have "(2::rat) powi j / 2 powi i = 2 ^ nat (j - i)" .
  then have "of_int M * ((2::rat) powi j / 2 powi i) = of_int M * 2 ^ nat (j - i)"
    by (simp only:)
  then show ?thesis by simp
qed

lemma nearest_double_le:
  assumes "x \<le> of_int M * 2 powi j" "max (binade x) (- 1022) - 52 \<le> j"
  shows "nearest_double x \<le> of_int M * 2 powi j"
proof -
  define i where "i = max (binade x) (- 1022) - 52"
  define u :: rat where "u = 2 powi i"
  have u: "0 < u" by (simp add: u_def)
  have g: "of_int M * 2 powi j / u = of_int (M * 2 ^ nat (j - i))"
    unfolding u_def using assms(2) by (intro grid_point) (simp add: i_def)
  have "x / u \<le> of_int M * 2 powi j / u" using assms(1) u by (simp add: divide_right_mono)
  then have "x / u < of_int (M * 2 ^ nat (j - i)) + 1 / 2" unfolding g by linarith
  then have "round_half_even (x / u) \<le> M * 2 ^ nat (j - i)" by (rule round_half_even_le)
  then have "(of_int (round_half_even (x / u)) :: rat) \<le> of_int (M * 2 ^ nat (j - i))"
    by (simp only: of_int_le_iff)
  then have "of_int (round_half_even (x / u)) * u \<le> of_int (M * 2 ^ nat (j - i)) * u"
    using u by (simp only: mult_le_cancel_right_pos)
  also have "of_int (M * 2 ^ nat (j - i)) * u = of_int M * 2 powi j"
    using u by (simp only: g[symmetric]) simp
  finally show ?thesis by (simp only: nearest_double_unfold u_def i_def)
qed

lemma nearest_double_ge:
  assumes "of_int M * 2 powi j \<le> x" "max (binade x) (- 1022) - 52 \<le> j"
  shows "of_int M * 2 powi j \<le> nearest_double x"
proof -
  define i where "i = max (binade x) (- 1022) - 52"
  define u :: rat where "u = 2 powi i"
  have u: "0 < u" by (simp add: u_def)
  have g: "of_int M * 2 powi j / u = of_int (M * 2 ^ nat (j - i))"
    unfolding u_def using assms(2) by (intro grid_point) (simp add: i_def)
  have "of_int M * 2 powi j / u \<le> x / u" using assms(1) u by (simp add: divide_right_mono)
  then have "of_int (M * 2 ^ nat (j - i)) - 1 / 2 < x / u" unfolding g by linarith
  then have "M * 2 ^ nat (j - i) \<le> round_half_even (x / u)" by (rule round_half_even_ge)
  then have "(of_int (M * 2 ^ nat (j - i)) :: rat) \<le> of_int (round_half_even (x / u))"
    by (simp only: of_int_le_iff)
  then have "of_int (M * 2 ^ nat (j - i)) * u \<le> of_int (round_half_even (x / u)) * u"
    using u by (simp only: mult_le_cancel_right_pos)
  moreover have "of_int (M * 2 ^ nat (j - i)) * u = of_int M * 2 powi j"
    using u by (simp only: g[symmetric]) simp
  ultimately show ?thesis by (simp only: nearest_double_unfold u_def i_def)
qed

lemma nearest_double_error:
  "\<bar>nearest_double x - x\<bar> \<le> 2 powi (max (binade x) (- 1022) - 53)"
proof -
  define i where "i = max (binade x) (- 1022) - 52"
  define u :: rat where "u = 2 powi i"
  have u: "0 < u" by (simp add: u_def)
  have "nearest_double x - x = (of_int (round_half_even (x / u)) - x / u) * u"
    using u by (simp add: nearest_double_unfold u_def i_def algebra_simps)
  then have "\<bar>nearest_double x - x\<bar> = \<bar>of_int (round_half_even (x / u)) - x / u\<bar> * u"
    using u by (simp add: abs_mult)
  also have "\<dots> \<le> 1 / 2 * u"
    using round_half_even_error[of "x / u"] u by (simp only: mult_le_cancel_right_pos)
  also have "1 / 2 * u = 2 powi (i - 1)" by (simp add: u_def power_int_diff)
  finally show ?thesis by (simp add: i_def algebra_simps)
qed

lemma binade_zero: "binade 0 = - 2"
  by code_simp

lemma nearest_double_unit:
  assumes "0 \<le> x" "x \<le> 1"
  shows "0 \<le> nearest_double x" "nearest_double x \<le> 1"
proof -
  have "of_int 0 * 2 powi (max (binade x) (- 1022) - 52) \<le> nearest_double x"
    using assms(1) by (intro nearest_double_ge) simp_all
  then show "0 \<le> nearest_double x" by simp
  have b: "binade x < 1"
  proof (cases "x = 0")
    case True
    then show ?thesis by (simp add: binade_zero)
  next
    case False
    then show ?thesis using assms by (simp add: binade_less_iff)
  qed
  have "nearest_double x \<le> of_int 1 * 2 powi 0"
    using assms(2) b by (intro nearest_double_le) simp_all
  then show "nearest_double x \<le> 1" by simp
qed

lemma double_six_tenths: "nearest_double (6 / 10) = of_int 5404319552844595 * 2 powi (- 53)"
  by code_simp

lemma double_six_tenths_below: "nearest_double (6 / 10) \<le> 6 / 10" "599 / 1000 < nearest_double (6 / 10)"
  by code_simp+

lemma double_one: "nearest_double 1 = 1"
  by code_simp

lemma nearest_double_gate:
  assumes "6 / 10 \<le> x" "x \<le> 1"
  shows "nearest_double (6 / 10) \<le> nearest_double x"
proof (cases "x = 1")
  case True
  then show ?thesis using double_six_tenths_below(1) by (simp add: double_one)
next
  case False
  then have x: "x \<noteq> 0" "\<bar>x\<bar> < 1" "1 / 2 \<le> \<bar>x\<bar>" using assms by simp_all
  have "binade x < 0" using x by (simp add: binade_less_iff)
  moreover have "- 1 \<le> binade x" using x by (simp add: binade_le_iff)
  ultimately have b: "binade x = - 1" by simp
  have "of_int 5404319552844595 * 2 powi (- 53) \<le> x"
    using assms(1) double_six_tenths_below(1) by (simp only: double_six_tenths[symmetric])
  then have "of_int 5404319552844595 * 2 powi (- 53) \<le> nearest_double x"
    by (rule nearest_double_ge) (simp add: b)
  then show ?thesis by (simp only: double_six_tenths)
qed

lemma true_divide_binade [code]:
  "true_divide a b =
     (if b = 0 then Inl ZeroDivisionError
      else (let y = nearest_double (of_int a / of_int b)
            in if y \<noteq> 0 \<and> 1024 \<le> binade y then Inl OverflowError else Inr y))"
proof -
  have "2 powi 1024 \<le> \<bar>y\<bar> \<longleftrightarrow> y \<noteq> 0 \<and> 1024 \<le> binade y" for y :: rat
    by (cases "y = 0") (simp_all add: binade_le_iff)
  then show ?thesis by (simp add: true_divide_def Let_def)
qed

lemma score_fraction:
  assumes "60 \<le> s" "s \<le> 100"
  shows "nearest_double (6 / 10) \<le> float_div s 100" "float_div s 100 \<le> 1"
proof -
  have r: "6 / 10 \<le> s / 100" "s / 100 \<le> 1" "0 \<le> s / 100" using assms by simp_all
  show "nearest_double (6 / 10) \<le> float_div s 100"
    unfolding float_div_def using r(1,2) by (rule nearest_double_gate)
  show "float_div s 100 \<le> 1"
    unfolding float_div_def using r(3,2) by (rule nearest_double_unit)
qed

lemma confidence_rounding:
  assumes "60 \<le> s" "s \<le> 100"
  shows "\<exists>k. 60 \<le> k \<and> k \<le> 100 \<and> \<bar>of_int k - 100 * float_div s 100\<bar> \<le> 1 / 2 \<and>
           py_round2 (float_div s 100) = nearest_double (of_int k / 100)"
    and "nearest_double (6 / 10) \<le> py_round2 (float_div s 100)"
    and "py_round2 (float_div s 100) \<le> 1"
proof -
  define d where "d = float_div s 100"
  define k where "k = round_half_even (d * 100)"
  have d: "599 / 1000 < d" "d \<le> 1"
    using score_fraction[OF assms] double_six_tenths_below(2) unfolding d_def by linarith+
  have "of_int 60 - 1 / 2 < d * 100" using d(1) by simp
  then have k60: "60 \<le> k" unfolding k_def by (rule round_half_even_ge)
  have "d * 100 < of_int 100 + 1 / 2" using d(2) by simp
  then have k100: "k \<le> 100" unfolding k_def by (rule round_half_even_le)
  have e: "\<bar>of_int k - 100 * d\<bar> \<le> 1 / 2"
    using round_half_even_error[of "d * 100"] by (simp add: k_def mult.commute)
  have p: "py_round2 d = nearest_double (of_int k / 100)"
    by (simp add: py_round2_def k_def)
  show "\<exists>k. 60 \<le> k \<and> k \<le> 100 \<and> \<bar>of_int k - 100 * float_div s 100\<bar> \<le> 1 / 2 \<and>
           py_round2 (float_div s 100) = nearest_double (of_int k / 100)"
    using k60 k100 e p unfolding d_def by blast
  have r: "6 / 10 \<le> (of_int k :: rat) / 100" "(of_int k :: rat) / 100 \<le> 1"
    using k60 k100 by simp_all
  have r0: "0 \<le> (of_int k :: rat) / 100" using k60 by simp
  have "nearest_double (6 / 10) \<le> nearest_double (of_int k / 100)"
    using r by (rule nearest_double_gate)
  then show "nearest_double (6 / 10) \<le> py_round2 (float_div s 100)"
    by (simp only: p[symmetric] d_def)
  have "nearest_double (of_int k / 100) \<le> 1"
    using r0 r(2) by (rule nearest_double_unit)
  then show "py_round2 (float_div s 100) \<le> 1"
    by (simp only: p[symmetric] d_def)
qed

lemma rounding_examples:
  "py_round2 (float_div (195 / 2) 100) = nearest_double (97 / 100)"
  "py_round2 (float_div (129 / 2) 100) = nearest_double (65 / 100)"
  "py_round2 (float_div 100 100) = 1"
  "py_round2 (float_div 60 100) = nearest_double (6 / 10)"
  by code_simp+

section \<open>Properties of the fuzzy match\<close>

lemma extract_loop_cases:
  "extract_loop s q best cs = Some (n, sc) \<Longrightarrow>
     best = Some (n, sc) \<or> (n \<in> set cs \<and> sc = s q n)"
proof (induction cs arbitrary: best)
  case Nil
  then show ?case by simp
next
  case (Cons c cs)
  define best' where "best' = (case best of None \<Rightarrow> Some (c, s q c)
      | Some (c', s') \<Rightarrow> if s q c > s' then Some (c, s q c) else best)"
  have "extract_loop s q best' cs = Some (n, sc)"
    using Cons.prems by (simp add: best'_def Let_def)
  from Cons.IH[OF this] have "best' = Some (n, sc) \<or> (n \<in> set cs \<and> sc = s q n)" .
  moreover have "best' = Some (n, sc) \<Longrightarrow> best = Some (n, sc) \<or> (n = c \<and> sc = s q c)"
    by (auto simp: best'_def split: option.splits if_splits)
  ultimately show ?case by auto
qed

lemma extract_loop_Some: "\<exists>n sc. extract_loop s q (Some b) cs = Some (n, sc)"
proof (induction cs arbitrary: b)
  case Nil
  then show ?case by (cases b) simp
next
  case (Cons c cs)
  obtain c' s' where b: "b = (c', s')" by (cases b)
  show ?case using Cons.IH[of "(c, s q c)"] Cons.IH[of b] by (simp add: b Let_def)
qed

lemma extractOne_in:
  "extractOne s q cs = Some (n, sc) \<Longrightarrow> n \<in> set cs \<and> sc = s q n"
  using extract_loop_cases[of s q None cs n sc] by (simp add: extractOne_def)

lemma extractOne_nonempty:
  "cs \<noteq> [] \<Longrightarrow> \<exists>n sc. extractOne s q cs = Some (n, sc)"
  using extract_loop_Some by (cases cs) (simp_all add: extractOne_def Let_def)

lemma extract_loop_first:
  "extract_loop s q best cs = Some (n, sc) \<Longrightarrow>
     (best = Some (n, sc) \<and> (\<forall>j<length cs. s q (cs ! j) \<le> sc)) \<or>
     (\<exists>i<length cs. cs ! i = n \<and> sc = s q n \<and> (\<forall>j<i. s q (cs ! j) < sc) \<and>
        (\<forall>j<length cs. s q (cs ! j) \<le> sc) \<and>
        (\<forall>c' s'. best = Some (c', s') \<longrightarrow> s' < sc))"
proof (induction cs arbitrary: best)
  case Nil
  then show ?case by simp
next
  case (Cons c cs)
  define best' where "best' = (case best of None \<Rightarrow> Some (c, s q c)
      | Some (c', s') \<Rightarrow> if s q c > s' then Some (c, s q c) else best)"
  have b': "best' = Some (c, s q c) \<and> (\<forall>c' s'. best = Some (c', s') \<longrightarrow> s' < s q c) \<or>
            best' = best \<and> (\<exists>c' s'. best = Some (c', s') \<and> s q c \<le> s')"
    by (cases best) (auto simp: best'_def split: if_splits)
  have run: "extract_loop s q best' cs = Some (n, sc)"
    using Cons.prems by (simp add: best'_def Let_def)
  from Cons.IH[OF run] consider
    (kept) "best' = Some (n, sc)" "\<forall>j<length cs. s q (cs ! j) \<le> sc"
    | (later) i where "i < length cs" "cs ! i = n" "sc = s q n" "\<forall>j<i. s q (cs ! j) < sc"
        "\<forall>j<length cs. s q (cs ! j) \<le> sc" "\<forall>c' s'. best' = Some (c', s') \<longrightarrow> s' < sc"
    by blast
  then show ?case
  proof cases
    case kept
    from b' show ?thesis
    proof (elim disjE conjE exE)
      assume a: "best' = Some (c, s q c)" "\<forall>c' s'. best = Some (c', s') \<longrightarrow> s' < s q c"
      then have e: "n = c" "sc = s q c" using kept(1) by simp_all
      have all: "\<forall>j<length (c # cs). s q ((c # cs) ! j) \<le> sc"
        using kept(2) e by (auto simp: nth_Cons split: nat.splits)
      have "0 < length (c # cs) \<and> (c # cs) ! 0 = n \<and> sc = s q n \<and>
            (\<forall>j<0. s q ((c # cs) ! j) < sc) \<and> (\<forall>j<length (c # cs). s q ((c # cs) ! j) \<le> sc) \<and>
            (\<forall>c' s'. best = Some (c', s') \<longrightarrow> s' < sc)"
        using e all a(2) by simp
      then show ?thesis by blast
    next
      fix c' s'
      assume a: "best' = best" "best = Some (c', s')" "s q c \<le> s'"
      then have e: "best = Some (n, sc)" "s q c \<le> sc" using kept(1) by simp_all
      have "\<forall>j<length (c # cs). s q ((c # cs) ! j) \<le> sc"
        using kept(2) e(2) by (auto simp: nth_Cons split: nat.splits)
      then show ?thesis using e(1) by blast
    qed
  next
    case later
    have c: "s q c < sc" using b' later(6) by auto
    have old: "\<forall>c' s'. best = Some (c', s') \<longrightarrow> s' < sc" using b' later(6) c by auto
    have "Suc i < length (c # cs) \<and> (c # cs) ! Suc i = n \<and> sc = s q n \<and>
          (\<forall>j<Suc i. s q ((c # cs) ! j) < sc) \<and>
          (\<forall>j<length (c # cs). s q ((c # cs) ! j) \<le> sc)"
      using later(1-5) c by (auto simp: nth_Cons less_imp_le split: nat.splits)
    then show ?thesis using old by blast
  qed
qed

lemma extractOne_first:
  assumes "extractOne s q cs = Some (n, sc)"
  shows "\<exists>i<length cs. cs ! i = n \<and> sc = s q n \<and> (\<forall>j<i. s q (cs ! j) < sc) \<and>
           (\<forall>j<length cs. s q (cs ! j) \<le> sc)"
  using extract_loop_first[of s q None cs n sc] assms by (auto simp: extractOne_def)

lemma best_product:
  assumes "extractOne (token_set_ratio e) text (product_names e) = Some (name, score)"
  shows "\<exists>i<length (catalog e).
           name = lower (p_name (catalog e ! i)) \<and>
           score = token_set_ratio e text (lower (p_name (catalog e ! i))) \<and>
           (\<forall>j<i. token_set_ratio e text (lower (p_name (catalog e ! j))) < score) \<and>
           (\<forall>j<length (catalog e).
              token_set_ratio e text (lower (p_name (catalog e ! j))) \<le> score) \<and>
           find (\<lambda>p. lower (p_name p) = name) (catalog e) = Some (catalog e ! i)"
proof -
  from extractOne_first[OF assms] obtain i where
    i: "i < length (product_names e)" "product_names e ! i = name"
      "score = token_set_ratio e text name"
      "\<forall>j<i. token_set_ratio e text (product_names e ! j) < score"
      "\<forall>j<length (product_names e). token_set_ratio e text (product_names e ! j) \<le> score"
    by blast
  have len: "length (product_names e) = length (catalog e)" by (simp add: product_names_def)
  have nth: "product_names e ! j = lower (p_name (catalog e ! j))" if "j < length (catalog e)" for j
    using that by (simp add: product_names_def)
  have il: "i < length (catalog e)" using i(1) len by simp
  have n: "name = lower (p_name (catalog e ! i))" using i(2) nth[OF il] by simp
  have lt: "\<forall>j<i. token_set_ratio e text (lower (p_name (catalog e ! j))) < score"
    using i(4) nth il by auto
  have le: "\<forall>j<length (catalog e). token_set_ratio e text (lower (p_name (catalog e ! j))) \<le> score"
    using i(5) nth len by auto
  have "\<not> lower (p_name (catalog e ! j)) = name" if "j < i" for j
  proof
    assume "lower (p_name (catalog e ! j)) = name"
    then have "token_set_ratio e text (lower (p_name (catalog e ! j))) = score"
      using i(3) by simp
    then show False using lt that by auto
  qed
  then have "find (\<lambda>p. lower (p_name p) = name) (catalog e) = Some (catalog e ! i)"
    unfolding find_Some_iff using il n by blast
  then show ?thesis using il n i(3) lt le by blast
qed

section \<open>Properties of the command parser\<close>

lemma parse_command_unfold:
  "parse_command e raw uid =
     (let text = correct_voice_input (strip (lower raw)) in
      if text = [] then Inr ((initial_result uid)\<lparr>message := MsgNotHeard\<rparr>)
      else (case extract_quantity text of
              Inl err \<Rightarrow> Inl err
            | Inr qty \<Rightarrow>
                if catalog e = [] then
                  Inr ((classified_result text uid qty)\<lparr>message := MsgNoCatalog\<rparr>)
                else if detect_intent text = view_cart then
                  handle_view_cart e uid (classified_result text uid qty)
                else if detect_intent text = clear_cart then
                  handle_clear_cart e uid (classified_result text uid qty)
                else if detect_intent text = list_products then
                  Inr ((classified_result text uid qty)
                         \<lparr>message := MsgCatalogSize (length (catalog e)),
                          recommendations :=
                            get_similar_products (partial_ratio e) (catalog e) text 5,
                          confidence := 1\<rparr>)
                else resolve_product e uid text (classified_result text uid qty)))"
  by (simp add: parse_command_def Let_def classified_result_def initial_result_def
      split: sum.splits)

lemma first_word_number_found:
  "(w, n) \<in> set tbl \<Longrightarrow> contains w t \<Longrightarrow> first_word_number tbl t \<noteq> None"
  by (induction tbl t rule: first_word_number.induct) auto

lemma cart_phrases_have_a:
  "list_all (contains ''a'') (view_cart_phrases @ clear_cart_phrases)"
  by code_simp

lemma detect_intent_normalized:
  assumes "text = correct_voice_input s"
  shows "detect_intent text = view_cart \<Longrightarrow> any_in view_cart_phrases text"
    and "detect_intent text = clear_cart \<Longrightarrow> any_in clear_cart_phrases text"
proof -
  have "correct_voice_input (lower text) = text"
    using normalized_fixed[OF assms] by simp
  then have d: "detect_intent text =
     (if any_in view_cart_phrases text then view_cart
      else if any_in clear_cart_phrases text then clear_cart
      else if any_in add_words text then add_to_cart
      else if any_in remove_words text then remove_from_cart
      else if any_in search_words text then search_product
      else if any_in list_phrases text then list_products
      else search_product)"
    by (simp add: detect_intent_def)
  show "detect_intent text = view_cart \<Longrightarrow> any_in view_cart_phrases text"
    unfolding d by (simp split: if_splits)
  show "detect_intent text = clear_cart \<Longrightarrow> any_in clear_cart_phrases text"
    unfolding d by (simp split: if_splits)
qed

lemma cart_intent_quantity:
  assumes norm: "text = correct_voice_input s"
    and i: "detect_intent text = view_cart \<or> detect_intent text = clear_cart"
  shows "\<exists>qty. extract_quantity text = Inr qty"
proof -
  have "any_in (view_cart_phrases @ clear_cart_phrases) text"
    using i detect_intent_normalized[OF norm] by (auto simp: any_in_def)
  then obtain p where p: "p \<in> set (view_cart_phrases @ clear_cart_phrases)" "contains p text"
    by (auto simp: any_in_def list_ex_iff)
  have "contains ''a'' p" using p(1) cart_phrases_have_a unfolding list_all_iff by blast
  then have "contains ''a'' text" using p(2) by (rule contains_trans)
  then have "contains ''a'' (lower text)" using normalized_fixed(1)[OF norm] by simp
  moreover have "(''a'', 1) \<in> set word_to_num" by (simp add: word_to_num_def)
  ultimately have "first_word_number word_to_num (lower text) \<noteq> None"
    by (rule first_word_number_found[rotated])
  then show ?thesis by (auto simp: extract_quantity_def)
qed

lemma classified_result_fields:
  "intent (classified_result text uid qty) = detect_intent text"
  "confidence (classified_result text uid qty) = 0"
  "recommendations (classified_result text uid qty) = []"
  "product_id (slots (classified_result text uid qty)) = None"
  "product_name (slots (classified_result text uid qty)) = None"
  "category (slots (classified_result text uid qty)) = None"
  "quantity (slots (classified_result text uid qty)) = qty"
  by (simp_all add: classified_result_def initial_result_def)

lemma cart_action_fields:
  "intent (cart_action e uid p r) = intent r"
  "slots (cart_action e uid p r) = slots r"
  "confidence (cart_action e uid p r) = confidence r"
  "recommendations (cart_action e uid p r) = recommendations r"
  by (auto simp: cart_action_def Let_def split: sum.splits)

lemma find_anchor: "find P ps = Some a \<Longrightarrow> a \<in> set ps \<and> P a"
  by (induction ps) (auto split: if_splits)

lemma find_product_name:
  "n \<in> set (product_names e) \<Longrightarrow>
     \<exists>p. find (\<lambda>p. lower (p_name p) = n) (catalog e) = Some p \<and> p \<in> set (catalog e) \<and>
         lower (p_name p) = n"
proof -
  assume "n \<in> set (product_names e)"
  then have "\<exists>p\<in>set (catalog e). lower (p_name p) = n"
    by (auto simp: product_names_def)
  then have "find (\<lambda>p. lower (p_name p) = n) (catalog e) \<noteq> None"
    by (simp only: find_None_iff) blast
  then obtain p where "find (\<lambda>p. lower (p_name p) = n) (catalog e) = Some p" by auto
  then show ?thesis using find_anchor by fastforce
qed

lemma resolve_product_below:
  assumes "extractOne (token_set_ratio e) text (product_names e) = Some (name, score)"
    and "score < 60"
  shows "resolve_product e uid text r = Inr (no_direct_match e text r)"
  using assms by (simp add: resolve_product_def product_names_def Let_def)

lemma resolve_product_above:
  assumes "extractOne (token_set_ratio e) text (product_names e) = Some (name, score)"
    and "60 \<le> score"
  shows "\<exists>p. find (\<lambda>p. lower (p_name p) = name) (catalog e) = Some p \<and>
           p \<in> set (catalog e) \<and> lower (p_name p) = name \<and>
           resolve_product e uid text r =
             (case get_related_recommendations (catalog e) (p_id p) 5 of
                Inl err \<Rightarrow> Inl err
              | Inr related \<Rightarrow>
                  Inr ((cart_action e uid p (bound_result p score r))
                         \<lparr>recommendations := related\<rparr>))"
proof -
  have "name \<in> set (product_names e)" using extractOne_in[OF assms(1)] by simp
  from find_product_name[OF this] obtain p where
    p: "find (\<lambda>p. lower (p_name p) = name) (catalog e) = Some p" "p \<in> set (catalog e)"
      "lower (p_name p) = name" by blast
  have "resolve_product e uid text r =
             (case get_related_recommendations (catalog e) (p_id p) 5 of
                Inl err \<Rightarrow> Inl err
              | Inr related \<Rightarrow>
                  Inr ((cart_action e uid p (bound_result p score r))
                         \<lparr>recommendations := related\<rparr>))"
    using assms p(1) unfolding product_names_def
    by (simp add: resolve_product_def Let_def bound_result_def split: sum.splits)
  then show ?thesis using p by blast
qed

text \<open>
  Claim C3 says that a failure of the cart service is caught at every call site. For the
  requests of the \<open>view_cart\<close> and \<open>clear_cart\<close> intents it is not: whenever the
  normalized text is not empty, the catalog is not empty and the request fails, the
  failure leaves \<open>parse_command\<close>. (The requests of \<open>add_to_cart\<close> and
  \<open>remove_from_cart\<close> are inside \<open>try\<close> blocks, see \<open>add_failure_degrades\<close>.)
\<close>

theorem cart_failure_propagates:
  assumes "text = correct_voice_input (strip (lower raw))" "text \<noteq> []" "catalog e \<noteq> []"
  shows "(detect_intent text = view_cart \<and> cart_service e uid GetCart = Inl err \<longrightarrow>
            parse_command e raw uid = Inl err) \<and>
         (detect_intent text = clear_cart \<and> cart_service e uid ClearCart = Inl err \<longrightarrow>
            parse_command e raw uid = Inl err)"
proof (intro conjI impI)
  assume v: "detect_intent text = view_cart \<and> cart_service e uid GetCart = Inl err"
  then obtain qty where "extract_quantity text = Inr qty"
    using cart_intent_quantity[OF assms(1)] by blast
  then show "parse_command e raw uid = Inl err"
    using assms v by (simp add: parse_command_unfold Let_def handle_view_cart_def)
next
  assume c: "detect_intent text = clear_cart \<and> cart_service e uid ClearCart = Inl err"
  then obtain qty where "extract_quantity text = Inr qty"
    using cart_intent_quantity[OF assms(1)] by blast
  then show "parse_command e raw uid = Inl err"
    using assms c
    by (simp add: parse_command_unfold Let_def handle_view_cart_def handle_clear_cart_def)
qed

lemma normalized_show_cart: "correct_voice_input (strip (lower ''show cart'')) = ''show cart''"
  by code_simp

lemma normalized_clear_cart: "correct_voice_input (strip (lower ''clear cart'')) = ''clear cart''"
  by code_simp

lemma intent_show_cart: "detect_intent ''show cart'' = view_cart"
  by code_simp

lemma intent_clear_cart: "detect_intent ''clear cart'' = clear_cart"
  by code_simp

theorem cart_failure_propagates_witness:
  "parse_command unreachable_env ''show cart'' (Some ''u1'') = Inl RequestError \<and>
   parse_command unreachable_env ''clear cart'' (Some ''u1'') = Inl RequestError"
proof -
  have c: "catalog unreachable_env \<noteq> []"
    by (simp add: unreachable_env_def example_catalog_def)
  have s: "cart_service unreachable_env (Some ''u1'') GetCart = Inl RequestError"
    "cart_service unreachable_env (Some ''u1'') ClearCart = Inl RequestError"
    by (simp_all add: unreachable_env_def)
  have "parse_command unreachable_env ''show cart'' (Some ''u1'') = Inl RequestError"
    using cart_failure_propagates[OF normalized_show_cart[symmetric] _ c,
        of "Some ''u1''" RequestError] s(1) intent_show_cart by simp
  moreover have "parse_command unreachable_env ''clear cart'' (Some ''u1'') = Inl RequestError"
    using cart_failure_propagates[OF normalized_clear_cart[symmetric] _ c,
        of "Some ''u1''" RequestError] s(2) intent_clear_cart by simp
  ultimately show ?thesis by simp
qed

lemma handle_view_cart_result:
  "handle_view_cart e uid r0 = Inr r \<Longrightarrow>
     confidence r = 1 \<and> intent r = intent r0 \<and> product_id (slots r) = product_id (slots r0)"
  by (auto simp: handle_view_cart_def Let_def split: sum.splits)

lemma handle_clear_cart_result:
  "handle_clear_cart e uid r0 = Inr r \<Longrightarrow>
     confidence r = 1 \<and> intent r = intent r0 \<and> product_id (slots r) = product_id (slots r0)"
  by (auto simp: handle_clear_cart_def split: sum.splits)

lemma no_direct_match_fields:
  "intent (no_direct_match e text r0) = intent r0"
  "slots (no_direct_match e text r0) = slots r0"
  "confidence (no_direct_match e text r0) =
     (if get_similar_products (partial_ratio e) (catalog e) text 5 \<noteq> [] then 1 / 2
      else confidence r0)"
  "recommendations (no_direct_match e text r0) =
     (if get_similar_products (partial_ratio e) (catalog e) text 5 \<noteq> []
      then get_similar_products (partial_ratio e) (catalog e) text 5
      else recommendations r0)"
  "message (no_direct_match e text r0) =
     (if get_similar_products (partial_ratio e) (catalog e) text 5 \<noteq> [] then MsgSimilar text
      else MsgNoMatch text)"
  by (simp_all add: no_direct_match_def Let_def)

lemma bound_result_fields:
  "intent (bound_result p s r) = intent r"
  "confidence (bound_result p s r) = py_round2 (float_div s 100)"
  "product_id (slots (bound_result p s r)) = Some (p_id p)"
  "product_name (slots (bound_result p s r)) = Some (p_name p)"
  "category (slots (bound_result p s r)) = Some (p_category p)"
  "quantity (slots (bound_result p s r)) = quantity (slots r)"
  by (simp_all add: bound_result_def)

lemma product_names_nonempty: "catalog e \<noteq> [] \<Longrightarrow> product_names e \<noteq> []"
  by (simp add: product_names_def)

lemma parse_command_result:
  assumes norm: "text = correct_voice_input (strip (lower raw))"
    and res: "parse_command e raw uid = Inr r"
  obtains
    (empty) "text = []" "r = (initial_result uid)\<lparr>message := MsgNotHeard\<rparr>"
  | (nocat) qty where "text \<noteq> []" "catalog e = []" "extract_quantity text = Inr qty"
      "r = (classified_result text uid qty)\<lparr>message := MsgNoCatalog\<rparr>"
  | (view) qty where "text \<noteq> []" "catalog e \<noteq> []" "extract_quantity text = Inr qty"
      "detect_intent text = view_cart"
      "handle_view_cart e uid (classified_result text uid qty) = Inr r"
  | (clear) qty where "text \<noteq> []" "catalog e \<noteq> []" "extract_quantity text = Inr qty"
      "detect_intent text = clear_cart"
      "handle_clear_cart e uid (classified_result text uid qty) = Inr r"
  | (list) qty where "text \<noteq> []" "catalog e \<noteq> []" "extract_quantity text = Inr qty"
      "detect_intent text = list_products"
      "r = (classified_result text uid qty)
             \<lparr>message := MsgCatalogSize (length (catalog e)),
              recommendations := get_similar_products (partial_ratio e) (catalog e) text 5,
              confidence := 1\<rparr>"
  | (bound) qty name score p related where "text \<noteq> []" "catalog e \<noteq> []"
      "extract_quantity text = Inr qty"
      "detect_intent text \<notin> {view_cart, clear_cart, list_products}"
      "extractOne (token_set_ratio e) text (product_names e) = Some (name, score)"
      "60 \<le> score"
      "find (\<lambda>p. lower (p_name p) = name) (catalog e) = Some p"
      "get_related_recommendations (catalog e) (p_id p) 5 = Inr related"
      "r = (cart_action e uid p (bound_result p score (classified_result text uid qty)))
             \<lparr>recommendations := related\<rparr>"
  | (fallback) qty name score where "text \<noteq> []" "catalog e \<noteq> []"
      "extract_quantity text = Inr qty"
      "detect_intent text \<notin> {view_cart, clear_cart, list_products}"
      "extractOne (token_set_ratio e) text (product_names e) = Some (name, score)"
      "score < 60"
      "r = no_direct_match e text (classified_result text uid qty)"
proof (cases "text = []")
  case True
  then have "r = (initial_result uid)\<lparr>message := MsgNotHeard\<rparr>"
    using res by (simp add: parse_command_unfold Let_def norm[symmetric])
  then show ?thesis using True empty by blast
next
  case ne: False
  then obtain qty where q: "extract_quantity text = Inr qty"
    using res by (cases "extract_quantity text")
      (simp_all add: parse_command_unfold Let_def norm[symmetric])
  define r0 where "r0 = classified_result text uid qty"
  have pc: "(if catalog e = [] then Inr (r0\<lparr>message := MsgNoCatalog\<rparr>)
             else if detect_intent text = view_cart then handle_view_cart e uid r0
             else if detect_intent text = clear_cart then handle_clear_cart e uid r0
             else if detect_intent text = list_products then
               Inr (r0\<lparr>message := MsgCatalogSize (length (catalog e)),
                       recommendations :=
                         get_similar_products (partial_ratio e) (catalog e) text 5,
                       confidence := 1\<rparr>)
             else resolve_product e uid text r0) = Inr r" (is "?rhs = _")
  proof -
    have "parse_command e raw uid = ?rhs"
      using ne q by (simp add: parse_command_unfold Let_def norm[symmetric] r0_def)
    then show ?thesis using res by (rule trans[OF sym])
  qed
  consider (a) "catalog e = []"
    | (b) "catalog e \<noteq> []" "detect_intent text = view_cart"
    | (c) "catalog e \<noteq> []" "detect_intent text = clear_cart"
    | (d) "catalog e \<noteq> []" "detect_intent text = list_products"
    | (f) "catalog e \<noteq> []" "detect_intent text \<notin> {view_cart, clear_cart, list_products}"
    by blast
  then show ?thesis
  proof cases
    case a
    then have "r = r0\<lparr>message := MsgNoCatalog\<rparr>" using pc by simp
    then show ?thesis using nocat[OF ne a q] by (simp add: r0_def)
  next
    case b
    then have "handle_view_cart e uid r0 = Inr r" using pc by simp
    then show ?thesis using view[OF ne b(1) q b(2)] by (simp add: r0_def)
  next
    case c
    then have "handle_clear_cart e uid r0 = Inr r" using pc by simp
    then show ?thesis using clear[OF ne c(1) q c(2)] by (simp add: r0_def)
  next
    case d
    then have "r = r0\<lparr>message := MsgCatalogSize (length (catalog e)),
                       recommendations :=
                         get_similar_products (partial_ratio e) (catalog e) text 5,
                       confidence := 1\<rparr>" using pc by simp
    then show ?thesis using list[OF ne d(1) q d(2)] by (simp add: r0_def)
  next
    case f
    then have rp: "resolve_product e uid text r0 = Inr r" using pc by simp
    obtain name score where
      ex: "extractOne (token_set_ratio e) text (product_names e) = Some (name, score)"
      using extractOne_nonempty[OF product_names_nonempty[OF f(1)]] by blast
    show ?thesis
    proof (cases "60 \<le> score")
      case True
      from resolve_product_above[OF ex True, of uid r0] obtain p where
        p: "find (\<lambda>p. lower (p_name p) = name) (catalog e) = Some p"
          "resolve_product e uid text r0 =
             (case get_related_recommendations (catalog e) (p_id p) 5 of
                Inl err \<Rightarrow> Inl err
              | Inr related \<Rightarrow>
                  Inr ((cart_action e uid p (bound_result p score r0))
                         \<lparr>recommendations := related\<rparr>))" by blast
      then obtain related where
        rel: "get_related_recommendations (catalog e) (p_id p) 5 = Inr related"
          "r = (cart_action e uid p (bound_result p score r0))\<lparr>recommendations := related\<rparr>"
        using rp by (cases "get_related_recommendations (catalog e) (p_id p) 5") simp_all
      show ?thesis using bound[OF ne f(1) q f(2) ex True p(1) rel(1)] rel(2)
        by (simp add: r0_def)
    next
      case False
      then have lo: "score < 60" by simp
      have "r = no_direct_match e text r0"
        using resolve_product_below[OF ex lo, of uid r0] rp by simp
      then show ?thesis using fallback[OF ne f(1) q f(2) ex lo] by (simp add: r0_def)
    qed
  qed
qed

lemma shared_word_le: "shared_word q c \<le> 100"
  by (simp add: shared_word_def)

lemma add_failure_degrades:
  "(case parse_command unreachable_env ''add apple'' None of
      Inr r \<Rightarrow> message r = MsgAddedPending 1 ''Organic Apple'' \<and> intent r = add_to_cart \<and>
               confidence r = 1
    | Inl err \<Rightarrow> False)"
  by code_simp

lemma zero_price_raises:
  "parse_command working_env ''find gift box'' None = Inl ZeroDivisionError"
  by code_simp

lemma parse_find_pear:
  "parse_command working_env ''find pear'' None =
     Inr \<lparr>intent = search_product,
          slots = \<lparr>product_name = Some ''Fresh Pear'', product_id = Some ''p3'', quantity = 1,
                   category = Some ''produce'', cart = None\<rparr>,
          confidence = 1,
          recommendations =
            [Relevance (example_catalog ! 0) 80, Relevance (example_catalog ! 1) 30],
          message = MsgFound ''Fresh Pear'' 110 ''produce'', user_id = None\<rparr>"
  by code_simp

lemma parse_nonsense:
  "parse_command working_env ''xyz nonsense'' None =
     Inr \<lparr>intent = search_product,
          slots = \<lparr>product_name = None, product_id = None, quantity = 1, category = None,
                   cart = None\<rparr>,
          confidence = 0, recommendations = [],
          message = MsgNoMatch ''xyz nonsense'', user_id = None\<rparr>"
  by code_simp

lemma parse_fractional:
  "parse_command fractional_env ''find pear'' None =
     Inr \<lparr>intent = search_product,
          slots = \<lparr>product_name = Some ''Organic Apple'', product_id = Some ''p1'',
                   quantity = 1, category = Some ''produce'', cart = None\<rparr>,
          confidence = nearest_double (97 / 100),
          recommendations =
            [Relevance (example_catalog ! 2) 80, Relevance (example_catalog ! 1) 30],
          message = MsgFound ''Organic Apple'' 100 ''produce'', user_id = None\<rparr>"
  by code_simp

lemma normalized_find_pear: "correct_voice_input (strip (lower ''find pear'')) = ''find pear''"
  by code_simp

lemma normalized_nonsense:
  "correct_voice_input (strip (lower ''xyz nonsense'')) = ''xyz nonsense''"
  by code_simp

lemma double_six_tenths_pos: "0 \<le> nearest_double (6 / 10)"
  using double_six_tenths_below(2) by linarith

text \<open>
  Claim C8, as stated: the confidence is 1 whenever the returned intent is
  \<open>view_cart\<close>, \<open>clear_cart\<close> or \<open>list_products\<close>. With an empty catalog the
  function returns after the intent is set and before any confidence is: the intent is
  \<open>view_cart\<close> and the confidence 0.
\<close>

theorem confidence_counterexample:
  "parse_command no_catalog_env ''show cart'' None =
     Inr \<lparr>intent = view_cart,
          slots = \<lparr>product_name = None, product_id = None, quantity = 1, category = None,
                   cart = None\<rparr>,
          confidence = 0, recommendations = [], message = MsgNoCatalog, user_id = None\<rparr>"
  by code_simp

text \<open>
  Claim C8, amended: for scores of at most 100, the confidence of every returned result
  lies between 0 and 1 and is 0 when the normalized text or the catalog is empty
  (whatever the intent); otherwise 1 for the intents \<open>view_cart\<close>, \<open>clear_cart\<close> and
  \<open>list_products\<close>; otherwise \<open>round(score / 100, 2)\<close> when the best score is at
  least 60; otherwise 0.5 when the similarity search finds something, and 0 when it
  does not. When a product is bound, the confidence is the float \<open>k / 100\<close> for the
  whole number \<open>k\<close> between 60 and 100 that is nearest to 100 times the float
  \<open>score / 100\<close>, and so at least the float 0.6.
\<close>

theorem confidence_characterised:
  assumes le: "\<forall>q c. token_set_ratio e q c \<le> 100"
    and norm: "text = correct_voice_input (strip (lower raw))"
    and res: "parse_command e raw uid = Inr r"
  shows "0 \<le> confidence r \<and> confidence r \<le> 1 \<and>
         confidence r = expected_confidence e text \<and>
         intent r = (if text = [] then unknown else detect_intent text) \<and>
         (product_id (slots r) \<noteq> None \<longrightarrow>
            nearest_double (6 / 10) \<le> confidence r \<and>
            (\<exists>name score k.
               extractOne (token_set_ratio e) text (product_names e) = Some (name, score) \<and>
               60 \<le> score \<and> 60 \<le> k \<and> k \<le> 100 \<and>
               \<bar>of_int k - 100 * nearest_double (score / 100)\<bar> \<le> 1 / 2 \<and>
               confidence r = nearest_double (of_int k / 100)))"
proof -
  have unbound: ?thesis
    if "product_id (slots r) = None" "0 \<le> confidence r" "confidence r \<le> 1"
      "confidence r = expected_confidence e text"
      "intent r = (if text = [] then unknown else detect_intent text)"
    using that by simp
  from norm res show ?thesis
  proof (cases rule: parse_command_result)
    case empty
    show ?thesis
      by (rule unbound) (simp_all add: empty expected_confidence_def initial_result_def)
  next
    case (nocat qty)
    show ?thesis
      by (rule unbound)
        (simp_all add: nocat(1,2,4) expected_confidence_def classified_result_fields)
  next
    case (view qty)
    from handle_view_cart_result[OF view(5)] show ?thesis
      by (intro unbound) (simp_all add: view(1,2,4) expected_confidence_def
          classified_result_fields)
  next
    case (clear qty)
    from handle_clear_cart_result[OF clear(5)] show ?thesis
      by (intro unbound) (simp_all add: clear(1,2,4) expected_confidence_def
          classified_result_fields)
  next
    case (list qty)
    show ?thesis
      by (rule unbound)
        (simp_all add: list(1,2,4,5) expected_confidence_def classified_result_fields)
  next
    case (bound qty name score p related)
    have s100: "score \<le> 100" using extractOne_in[OF bound(5)] le by simp
    have c: "confidence r = py_round2 (float_div score 100)"
      by (simp add: bound(9) cart_action_fields bound_result_fields)
    have i: "intent r = detect_intent text"
      by (simp add: bound(9) cart_action_fields bound_result_fields classified_result_fields)
    have x: "confidence r = expected_confidence e text"
      using bound(1,2,4,5,6) by (simp add: c expected_confidence_def)
    note cr = confidence_rounding[OF bound(6) s100]
    have lo: "nearest_double (6 / 10) \<le> confidence r" using cr(2) by (simp only: c)
    have hi: "confidence r \<le> 1" using cr(3) by (simp only: c)
    have pos: "0 \<le> confidence r" using lo double_six_tenths_pos by (rule order_trans[rotated])
    from cr(1) obtain k where
      k: "60 \<le> k" "k \<le> 100" "\<bar>of_int k - 100 * float_div score 100\<bar> \<le> 1 / 2"
        "py_round2 (float_div score 100) = nearest_double (of_int k / 100)" by blast
    have "extractOne (token_set_ratio e) text (product_names e) = Some (name, score) \<and>
          60 \<le> score \<and> 60 \<le> k \<and> k \<le> 100 \<and>
          \<bar>of_int k - 100 * nearest_double (score / 100)\<bar> \<le> 1 / 2 \<and>
          confidence r = nearest_double (of_int k / 100)"
      using bound(5,6) k c by (simp add: float_div_def)
    then have pin: "\<exists>name score k.
               extractOne (token_set_ratio e) text (product_names e) = Some (name, score) \<and>
               60 \<le> score \<and> 60 \<le> k \<and> k \<le> 100 \<and>
               \<bar>of_int k - 100 * nearest_double (score / 100)\<bar> \<le> 1 / 2 \<and>
               confidence r = nearest_double (of_int k / 100)" by blast
    have it: "intent r = (if text = [] then unknown else detect_intent text)"
      using i bound(1) by simp
    show ?thesis using pos hi x it lo pin by blast
  next
    case (fallback qty name score)
    show ?thesis
      using fallback(1,2,4,5,6)
      by (intro unbound)
        (simp_all add: fallback(7) expected_confidence_def no_direct_match_fields
          classified_result_fields)
  qed
qed

theorem confidence_characterised_witness:
  "(\<forall>q c. token_set_ratio working_env q c \<le> 100) \<and>
   (\<forall>q c. token_set_ratio fractional_env q c \<le> 100) \<and>
   expected_confidence working_env ''find pear'' = 1 \<and>
   expected_confidence working_env ''xyz nonsense'' = 0 \<and>
   expected_confidence fractional_env ''find pear'' = nearest_double (97 / 100)"
proof -
  have le: "\<forall>q c. token_set_ratio working_env q c \<le> 100"
    by (simp add: working_env_def shared_word_le)
  have le': "\<forall>q c. token_set_ratio fractional_env q c \<le> 100"
    by (simp add: fractional_env_def)
  have "expected_confidence working_env ''find pear'' = 1"
    using confidence_characterised[OF le normalized_find_pear[symmetric] parse_find_pear]
    by simp
  moreover have "expected_confidence working_env ''xyz nonsense'' = 0"
    using confidence_characterised[OF le normalized_nonsense[symmetric] parse_nonsense]
    by simp
  moreover have "expected_confidence fractional_env ''find pear'' = nearest_double (97 / 100)"
    using confidence_characterised[OF le' normalized_find_pear[symmetric] parse_fractional]
    by simp
  ultimately show ?thesis using le le' by blast
qed

lemma resolve_branch:
  assumes norm: "text = correct_voice_input (strip (lower raw))"
    and ne: "text \<noteq> []" "catalog e \<noteq> []"
    and branch: "detect_intent text \<notin> {view_cart, clear_cart, list_products}"
  shows "parse_command e raw uid =
           (case extract_quantity text of
              Inl err \<Rightarrow> Inl err
            | Inr qty \<Rightarrow> resolve_product e uid text (classified_result text uid qty))"
  using ne branch
  by (simp add: parse_command_unfold Let_def norm[symmetric] split: sum.splits)

lemma bound_outcome:
  assumes r: "r = (cart_action e uid p (bound_result p score (classified_result text uid qty)))
                    \<lparr>recommendations := related\<rparr>"
  shows "product_id (slots r) = Some (p_id p) \<and> product_name (slots r) = Some (p_name p) \<and>
         category (slots r) = Some (p_category p) \<and> quantity (slots r) = qty \<and>
         intent r = detect_intent text \<and>
         confidence r = py_round2 (float_div score 100) \<and> recommendations r = related"
  by (simp add: r cart_action_fields bound_result_fields classified_result_fields)

lemma fallback_outcome:
  assumes r: "r = no_direct_match e text (classified_result text uid qty)"
  shows "product_id (slots r) = None \<and> product_name (slots r) = None \<and>
         category (slots r) = None \<and>
         (if get_similar_products (partial_ratio e) (catalog e) text 5 \<noteq> []
          then recommendations r = get_similar_products (partial_ratio e) (catalog e) text 5 \<and>
               confidence r = 1 / 2 \<and> message r = MsgSimilar text
          else recommendations r = [] \<and> confidence r = 0 \<and> message r = MsgNoMatch text)"
  by (simp add: r no_direct_match_fields classified_result_fields)

lemma bound_iff:
  assumes norm: "text = correct_voice_input (strip (lower raw))"
    and res: "parse_command e raw uid = Inr r"
  shows "product_id (slots r) \<noteq> None \<longleftrightarrow>
           text \<noteq> [] \<and> catalog e \<noteq> [] \<and>
           detect_intent text \<notin> {view_cart, clear_cart, list_products} \<and>
           (\<exists>name score.
              extractOne (token_set_ratio e) text (product_names e) = Some (name, score) \<and>
              60 \<le> score)"
  using norm res
proof (cases rule: parse_command_result)
  case empty
  then show ?thesis by (simp add: initial_result_def)
next
  case (nocat qty)
  then show ?thesis by (simp add: classified_result_fields)
next
  case (view qty)
  from handle_view_cart_result[OF view(5)] show ?thesis
    using view(4) by (simp add: classified_result_fields)
next
  case (clear qty)
  from handle_clear_cart_result[OF clear(5)] show ?thesis
    using clear(4) by (simp add: classified_result_fields)
next
  case (list qty)
  then show ?thesis by (simp add: classified_result_fields)
next
  case (bound qty name score p related)
  have "product_id (slots r) = Some (p_id p)" using bound_outcome[OF bound(9)] by simp
  then show ?thesis using bound(1,2,4,5,6) by simp
next
  case (fallback qty name score)
  have "product_id (slots r) = None" using fallback_outcome[OF fallback(7)] by simp
  then show ?thesis using fallback(5,6) by simp
qed

lemma resolve_outcome:
  assumes norm: "text = correct_voice_input (strip (lower raw))"
    and ne: "text \<noteq> []" "catalog e \<noteq> []"
    and branch: "detect_intent text \<notin> {view_cart, clear_cart, list_products}"
  shows "\<exists>i<length (catalog e). \<exists>score.
           score = token_set_ratio e text (lower (p_name (catalog e ! i))) \<and>
           extractOne (token_set_ratio e) text (product_names e) =
             Some (lower (p_name (catalog e ! i)), score) \<and>
           (\<forall>j<length (catalog e).
              token_set_ratio e text (lower (p_name (catalog e ! j))) \<le> score) \<and>
           (\<forall>j<i. token_set_ratio e text (lower (p_name (catalog e ! j))) < score) \<and>
           (case extract_quantity text of
              Inl err \<Rightarrow> parse_command e raw uid = Inl err
            | Inr qty \<Rightarrow>
                if 60 \<le> score then
                  (case get_related_recommendations (catalog e) (p_id (catalog e ! i)) 5 of
                     Inl err \<Rightarrow> parse_command e raw uid = Inl err
                   | Inr related \<Rightarrow>
                       (\<exists>r. parse_command e raw uid = Inr r \<and>
                          product_id (slots r) = Some (p_id (catalog e ! i)) \<and>
                          product_name (slots r) = Some (p_name (catalog e ! i)) \<and>
                          category (slots r) = Some (p_category (catalog e ! i)) \<and>
                          quantity (slots r) = qty \<and>
                          intent r = detect_intent text \<and>
                          confidence r = py_round2 (float_div score 100) \<and>
                          recommendations r = related))
                else
                  (\<exists>r. parse_command e raw uid = Inr r \<and>
                     product_id (slots r) = None \<and> product_name (slots r) = None \<and>
                     category (slots r) = None \<and>
                     (if get_similar_products (partial_ratio e) (catalog e) text 5 \<noteq> []
                      then recommendations r =
                             get_similar_products (partial_ratio e) (catalog e) text 5 \<and>
                           confidence r = 1 / 2 \<and> message r = MsgSimilar text
                      else recommendations r = [] \<and> confidence r = 0 \<and>
                           message r = MsgNoMatch text)))"
proof -
  obtain name score where
    ex: "extractOne (token_set_ratio e) text (product_names e) = Some (name, score)"
    using extractOne_nonempty[OF product_names_nonempty[OF ne(2)]] by blast
  from best_product[OF ex] obtain i where i: "i < length (catalog e)"
    "name = lower (p_name (catalog e ! i))"
    "score = token_set_ratio e text (lower (p_name (catalog e ! i)))"
    "\<forall>j<i. token_set_ratio e text (lower (p_name (catalog e ! j))) < score"
    "\<forall>j<length (catalog e). token_set_ratio e text (lower (p_name (catalog e ! j))) \<le> score"
    "find (\<lambda>p. lower (p_name p) = name) (catalog e) = Some (catalog e ! i)"
    by blast
  define p where "p = catalog e ! i"
  note pc = resolve_branch[OF norm ne branch, of uid]
  have out: "case extract_quantity text of
              Inl err \<Rightarrow> parse_command e raw uid = Inl err
            | Inr qty \<Rightarrow>
                if 60 \<le> score then
                  (case get_related_recommendations (catalog e) (p_id p) 5 of
                     Inl err \<Rightarrow> parse_command e raw uid = Inl err
                   | Inr related \<Rightarrow>
                       (\<exists>r. parse_command e raw uid = Inr r \<and>
                          product_id (slots r) = Some (p_id p) \<and>
                          product_name (slots r) = Some (p_name p) \<and>
                          category (slots r) = Some (p_category p) \<and>
                          quantity (slots r) = qty \<and>
                          intent r = detect_intent text \<and>
                          confidence r = py_round2 (float_div score 100) \<and>
                          recommendations r = related))
                else
                  (\<exists>r. parse_command e raw uid = Inr r \<and>
                     product_id (slots r) = None \<and> product_name (slots r) = None \<and>
                     category (slots r) = None \<and>
                     (if get_similar_products (partial_ratio e) (catalog e) text 5 \<noteq> []
                      then recommendations r =
                             get_similar_products (partial_ratio e) (catalog e) text 5 \<and>
                           confidence r = 1 / 2 \<and> message r = MsgSimilar text
                      else recommendations r = [] \<and> confidence r = 0 \<and>
                           message r = MsgNoMatch text))"
  proof (cases "extract_quantity text")
    case (Inl err)
    then show ?thesis using pc by simp
  next
    case (Inr qty)
    then have pq: "parse_command e raw uid =
        resolve_product e uid text (classified_result text uid qty)" using pc by simp
    show ?thesis
    proof (cases "60 \<le> score")
      case True
      from resolve_product_above[OF ex True, of uid "classified_result text uid qty"]
      obtain p' where p': "find (\<lambda>p. lower (p_name p) = name) (catalog e) = Some p'"
        "resolve_product e uid text (classified_result text uid qty) =
           (case get_related_recommendations (catalog e) (p_id p') 5 of
              Inl err \<Rightarrow> Inl err
            | Inr related \<Rightarrow>
                Inr ((cart_action e uid p' (bound_result p' score (classified_result text uid qty)))
                       \<lparr>recommendations := related\<rparr>))" by blast
      have same: "p' = p" using p'(1) i(6) by (simp add: p_def)
      show ?thesis
      proof (cases "get_related_recommendations (catalog e) (p_id p) 5")
        case (Inl err)
        then have "parse_command e raw uid = Inl err" using pq p'(2) same by simp
        then show ?thesis using Inr True Inl by simp
      next
        case rel: (Inr related)
        define r where "r = (cart_action e uid p (bound_result p score (classified_result text uid qty)))
                       \<lparr>recommendations := related\<rparr>"
        have "parse_command e raw uid = Inr r" using pq p'(2) same rel by (simp add: r_def)
        then have "\<exists>r. parse_command e raw uid = Inr r \<and>
                          product_id (slots r) = Some (p_id p) \<and>
                          product_name (slots r) = Some (p_name p) \<and>
                          category (slots r) = Some (p_category p) \<and>
                          quantity (slots r) = qty \<and>
                          intent r = detect_intent text \<and>
                          confidence r = py_round2 (float_div score 100) \<and>
                          recommendations r = related"
          using bound_outcome[OF r_def] by blast
        then show ?thesis using Inr True rel by simp
      qed
    next
      case False
      then have lo: "score < 60" by simp
      define r where "r = no_direct_match e text (classified_result text uid qty)"
      have "parse_command e raw uid = Inr r"
        using pq resolve_product_below[OF ex lo] by (simp add: r_def)
      then have "\<exists>r. parse_command e raw uid = Inr r \<and>
                     product_id (slots r) = None \<and> product_name (slots r) = None \<and>
                     category (slots r) = None \<and>
                     (if get_similar_products (partial_ratio e) (catalog e) text 5 \<noteq> []
                      then recommendations r =
                             get_similar_products (partial_ratio e) (catalog e) text 5 \<and>
                           confidence r = 1 / 2 \<and> message r = MsgSimilar text
                      else recommendations r = [] \<and> confidence r = 0 \<and>
                           message r = MsgNoMatch text)"
        using fallback_outcome[OF r_def] by blast
      then show ?thesis using Inr False by simp
    qed
  qed
  have e2: "extractOne (token_set_ratio e) text (product_names e) =
             Some (lower (p_name (catalog e ! i)), score)" using ex i(2) by simp
  show ?thesis
    using i(1) i(3) e2 i(5) i(4) out[unfolded p_def] by blast
qed

lemma best_find_pear:
  "extractOne (token_set_ratio working_env) ''find pear'' (product_names working_env) =
     Some (''fresh pear'', 100)"
  by code_simp

lemma best_nonsense:
  "extractOne (token_set_ratio working_env) ''xyz nonsense'' (product_names working_env) =
     Some (''organic apple'', 0)"
  by code_simp

lemma branch_find_pear:
  "detect_intent ''find pear'' \<notin> {view_cart, clear_cart, list_products}"
  by code_simp

lemma branch_nonsense:
  "detect_intent ''xyz nonsense'' \<notin> {view_cart, clear_cart, list_products}"
  by code_simp

lemma normalized_list_apple:
  "correct_voice_input (strip (lower ''list apple'')) = ''list apple''"
  by code_simp

lemma intent_list_apple: "detect_intent ''list apple'' = list_products"
  by code_simp

lemma parse_list_apple:
  "\<exists>r. parse_command working_env ''list apple'' None = Inr r \<and> intent r = list_products"
proof -
  have "parse_command working_env ''list apple'' None =
     Inr \<lparr>intent = list_products,
          slots = \<lparr>product_name = None, product_id = None, quantity = 1, category = None,
                   cart = None\<rparr>,
          confidence = 1,
          recommendations = [Similarity (example_catalog ! 0) 100],
          message = MsgCatalogSize 4, user_id = None\<rparr>"
    by code_simp
  then show ?thesis by simp
qed

lemma quantity_examples:
  "extract_quantity ''find pear'' = Inr 1" "extract_quantity ''xyz nonsense'' = Inr 1"
  by code_simp+

lemma related_pear:
  "get_related_recommendations (catalog working_env) (p_id (catalog working_env ! 2)) 5 =
     Inr [Relevance (example_catalog ! 0) 80, Relevance (example_catalog ! 1) 30]"
  by code_simp

lemma similar_nonsense:
  "get_similar_products (partial_ratio working_env) (catalog working_env) ''xyz nonsense'' 5 = []"
  by code_simp

lemma pear_index:
  assumes "i < length (catalog working_env)"
    and "lower (p_name (catalog working_env ! i)) = ''fresh pear''"
  shows "i = 2"
proof -
  have names: "map (\<lambda>p. lower (p_name p)) (catalog working_env) =
      [''organic apple'', ''oat milk'', ''fresh pear'', ''gift box'']" by code_simp
  have len: "length (catalog working_env) = 4"
    by (simp add: working_env_def example_catalog_def)
  have "map (\<lambda>p. lower (p_name p)) (catalog working_env) ! i = ''fresh pear''"
    using assms by simp
  then have n: "[''organic apple'', ''oat milk'', ''fresh pear'', ''gift box''] ! i = ''fresh pear''"
    by (simp only: names)
  have "i = 0 \<or> i = 1 \<or> i = 2 \<or> i = 3" using assms(1) len by arith
  then show ?thesis using n by auto
qed

text \<open>
  Claim C7, as stated: in \<open>parse_command\<close> a product is bound exactly when the best
  score is at least 60, and without a bound product the result carries the similarity
  fallback. For the text \<open>"list apple"\<close> the best score is 100, yet the intent
  \<open>list_products\<close> returns before the fuzzy match: no product is bound, and the
  confidence is 1.
\<close>

theorem product_gate_counterexample:
  "extractOne (token_set_ratio working_env) ''list apple'' (product_names working_env) =
     Some (''organic apple'', 100) \<and>
   parse_command working_env ''list apple'' None =
     Inr \<lparr>intent = list_products,
          slots = \<lparr>product_name = None, product_id = None, quantity = 1, category = None,
                   cart = None\<rparr>,
          confidence = 1,
          recommendations = [Similarity (example_catalog ! 0) 100],
          message = MsgCatalogSize 4, user_id = None\<rparr>"
  by code_simp

text \<open>
  Claim C7, amended. A returned result binds a product if and only if the normalized
  text and the catalog are not empty, the intent is none of \<open>view_cart\<close>,
  \<open>clear_cart\<close>, \<open>list_products\<close> (these bind no product, whatever the score) and the
  best score is at least 60. In that branch the match is the first product of the
  catalog whose lower-cased name has the highest score. If \<open>extract_quantity\<close> raises,
  its exception leaves the function. Otherwise, with a score of at least 60, the
  exception of \<open>get_related_recommendations\<close> for that product leaves the function if
  it raises one, and else the result binds that product, with the extracted quantity,
  the rounded score fraction as confidence and the related products as
  recommendations; with a score below 60 a result is returned that binds no product: it
  carries the similarity recommendations, confidence 0.5 and the message for similar
  products when the similarity search finds something, and no recommendation,
  confidence 0 and the no-match message otherwise.
\<close>

theorem product_gate:
  assumes norm: "text = correct_voice_input (strip (lower raw))"
  shows "(\<forall>r. parse_command e raw uid = Inr r \<longrightarrow>
            (product_id (slots r) \<noteq> None \<longleftrightarrow>
               text \<noteq> [] \<and> catalog e \<noteq> [] \<and>
               detect_intent text \<notin> {view_cart, clear_cart, list_products} \<and>
               (\<exists>name score.
                  extractOne (token_set_ratio e) text (product_names e) = Some (name, score) \<and>
                  60 \<le> score))) \<and>
         (text \<noteq> [] \<and> catalog e \<noteq> [] \<and>
          detect_intent text \<notin> {view_cart, clear_cart, list_products} \<longrightarrow>
            (\<exists>i<length (catalog e). \<exists>score.
               score = token_set_ratio e text (lower (p_name (catalog e ! i))) \<and>
               extractOne (token_set_ratio e) text (product_names e) =
                 Some (lower (p_name (catalog e ! i)), score) \<and>
               (\<forall>j<length (catalog e).
                  token_set_ratio e text (lower (p_name (catalog e ! j))) \<le> score) \<and>
               (\<forall>j<i. token_set_ratio e text (lower (p_name (catalog e ! j))) < score) \<and>
               (case extract_quantity text of
                  Inl err \<Rightarrow> parse_command e raw uid = Inl err
                | Inr qty \<Rightarrow>
                    if 60 \<le> score then
                      (case get_related_recommendations (catalog e) (p_id (catalog e ! i)) 5 of
                         Inl err \<Rightarrow> parse_command e raw uid = Inl err
                       | Inr related \<Rightarrow>
                           (\<exists>r. parse_command e raw uid = Inr r \<and>
                              product_id (slots r) = Some (p_id (catalog e ! i)) \<and>
                              product_name (slots r) = Some (p_name (catalog e ! i)) \<and>
                              category (slots r) = Some (p_category (catalog e ! i)) \<and>
                              quantity (slots r) = qty \<and>
                              intent r = detect_intent text \<and>
                              confidence r = py_round2 (float_div score 100) \<and>
                              recommendations r = related))
                    else
                      (\<exists>r. parse_command e raw uid = Inr r \<and>
                         product_id (slots r) = None \<and> product_name (slots r) = None \<and>
                         category (slots r) = None \<and>
                         (if get_similar_products (partial_ratio e) (catalog e) text 5 \<noteq> []
                          then recommendations r =
                                 get_similar_products (partial_ratio e) (catalog e) text 5 \<and>
                               confidence r = 1 / 2 \<and> message r = MsgSimilar text
                          else recommendations r = [] \<and> confidence r = 0 \<and>
                               message r = MsgNoMatch text)))))"
proof (intro conjI allI impI)
  fix r
  assume "parse_command e raw uid = Inr r"
  with norm show "product_id (slots r) \<noteq> None \<longleftrightarrow>
               text \<noteq> [] \<and> catalog e \<noteq> [] \<and>
               detect_intent text \<notin> {view_cart, clear_cart, list_products} \<and>
               (\<exists>name score.
                  extractOne (token_set_ratio e) text (product_names e) = Some (name, score) \<and>
                  60 \<le> score)"
    by (rule bound_iff)
next
  assume a: "text \<noteq> [] \<and> catalog e \<noteq> [] \<and>
          detect_intent text \<notin> {view_cart, clear_cart, list_products}"
  then have ne: "text \<noteq> []" "catalog e \<noteq> []"
    and branch: "detect_intent text \<notin> {view_cart, clear_cart, list_products}" by blast+
  from norm ne branch show "\<exists>i<length (catalog e). \<exists>score.
               score = token_set_ratio e text (lower (p_name (catalog e ! i))) \<and>
               extractOne (token_set_ratio e) text (product_names e) =
                 Some (lower (p_name (catalog e ! i)), score) \<and>
               (\<forall>j<length (catalog e).
                  token_set_ratio e text (lower (p_name (catalog e ! j))) \<le> score) \<and>
               (\<forall>j<i. token_set_ratio e text (lower (p_name (catalog e ! j))) < score) \<and>
               (case extract_quantity text of
                  Inl err \<Rightarrow> parse_command e raw uid = Inl err
                | Inr qty \<Rightarrow>
                    if 60 \<le> score then
                      (case get_related_recommendations (catalog e) (p_id (catalog e ! i)) 5 of
                         Inl err \<Rightarrow> parse_command e raw uid = Inl err
                       | Inr related \<Rightarrow>
                           (\<exists>r. parse_command e raw uid = Inr r \<and>
                              product_id (slots r) = Some (p_id (catalog e ! i)) \<and>
                              product_name (slots r) = Some (p_name (catalog e ! i)) \<and>
                              category (slots r) = Some (p_category (catalog e ! i)) \<and>
                              quantity (slots r) = qty \<and>
                              intent r = detect_intent text \<and>
                              confidence r = py_round2 (float_div score 100) \<and>
                              recommendations r = related))
                    else
                      (\<exists>r. parse_command e raw uid = Inr r \<and>
                         product_id (slots r) = None \<and> product_name (slots r) = None \<and>
                         category (slots r) = None \<and>
                         (if get_similar_products (partial_ratio e) (catalog e) text 5 \<noteq> []
                          then recommendations r =
                                 get_similar_products (partial_ratio e) (catalog e) text 5 \<and>
                               confidence r = 1 / 2 \<and> message r = MsgSimilar text
                          else recommendations r = [] \<and> confidence r = 0 \<and>
                               message r = MsgNoMatch text)))"
    by (rule resolve_outcome)
qed

theorem product_gate_witness:
  "(\<exists>r. parse_command working_env ''find pear'' None = Inr r \<and>
      product_id (slots r) = Some ''p3'' \<and> product_name (slots r) = Some ''Fresh Pear'' \<and>
      quantity (slots r) = 1 \<and> confidence r = 1) \<and>
   (\<exists>r. parse_command working_env ''xyz nonsense'' None = Inr r \<and>
      product_id (slots r) = None \<and> confidence r = 0 \<and>
      message r = MsgNoMatch ''xyz nonsense'') \<and>
   (\<exists>r. parse_command working_env ''list apple'' None = Inr r \<and>
      product_id (slots r) = None \<and> intent r = list_products)"
proof -
  have c: "catalog working_env \<noteq> []"
    by (simp add: working_env_def example_catalog_def)
  have p3: "p_id (catalog working_env ! 2) = ''p3''" "p_name (catalog working_env ! 2) = ''Fresh Pear''"
    by (simp_all add: working_env_def example_catalog_def)
  note pear = product_gate[OF normalized_find_pear[symmetric], of working_env None]
  from pear c branch_find_pear obtain i score where
    i: "i < length (catalog working_env)"
      "extractOne (token_set_ratio working_env) ''find pear'' (product_names working_env) =
         Some (lower (p_name (catalog working_env ! i)), score)"
      "case extract_quantity ''find pear'' of
         Inl err \<Rightarrow> parse_command working_env ''find pear'' None = Inl err
       | Inr qty \<Rightarrow>
           if 60 \<le> score then
             (case get_related_recommendations (catalog working_env)
                     (p_id (catalog working_env ! i)) 5 of
                Inl err \<Rightarrow> parse_command working_env ''find pear'' None = Inl err
              | Inr related \<Rightarrow>
                  (\<exists>r. parse_command working_env ''find pear'' None = Inr r \<and>
                     product_id (slots r) = Some (p_id (catalog working_env ! i)) \<and>
                     product_name (slots r) = Some (p_name (catalog working_env ! i)) \<and>
                     category (slots r) = Some (p_category (catalog working_env ! i)) \<and>
                     quantity (slots r) = qty \<and>
                     intent r = detect_intent ''find pear'' \<and>
                     confidence r = py_round2 (float_div score 100) \<and>
                     recommendations r = related))
           else
             (\<exists>r. parse_command working_env ''find pear'' None = Inr r \<and>
                product_id (slots r) = None \<and> product_name (slots r) = None \<and>
                category (slots r) = None \<and>
                (if get_similar_products (partial_ratio working_env) (catalog working_env)
                      ''find pear'' 5 \<noteq> []
                 then recommendations r =
                        get_similar_products (partial_ratio working_env) (catalog working_env)
                          ''find pear'' 5 \<and>
                      confidence r = 1 / 2 \<and> message r = MsgSimilar ''find pear''
                 else recommendations r = [] \<and> confidence r = 0 \<and>
                      message r = MsgNoMatch ''find pear''))"
    by blast
  have sc: "score = 100" and nm: "lower (p_name (catalog working_env ! i)) = ''fresh pear''"
    using i(2) best_find_pear by simp_all
  have i2: "i = 2" using i(1) nm by (rule pear_index)
  have first: "\<exists>r. parse_command working_env ''find pear'' None = Inr r \<and>
      product_id (slots r) = Some ''p3'' \<and> product_name (slots r) = Some ''Fresh Pear'' \<and>
      quantity (slots r) = 1 \<and> confidence r = 1"
  proof -
    have "\<exists>r. parse_command working_env ''find pear'' None = Inr r \<and>
            product_id (slots r) = Some (p_id (catalog working_env ! 2)) \<and>
            product_name (slots r) = Some (p_name (catalog working_env ! 2)) \<and>
            quantity (slots r) = 1 \<and>
            confidence r = py_round2 (float_div 100 100)"
      using i(3) unfolding i2 sc by (simp add: quantity_examples related_pear) blast
    then show ?thesis by (simp only: p3 rounding_examples(3))
  qed
  note nons = product_gate[OF normalized_nonsense[symmetric], of working_env None]
  from nons c branch_nonsense obtain j score' where
    j: "extractOne (token_set_ratio working_env) ''xyz nonsense'' (product_names working_env) =
         Some (lower (p_name (catalog working_env ! j)), score')"
      "case extract_quantity ''xyz nonsense'' of
         Inl err \<Rightarrow> parse_command working_env ''xyz nonsense'' None = Inl err
       | Inr qty \<Rightarrow>
           if 60 \<le> score' then
             (case get_related_recommendations (catalog working_env)
                     (p_id (catalog working_env ! j)) 5 of
                Inl err \<Rightarrow> parse_command working_env ''xyz nonsense'' None = Inl err
              | Inr related \<Rightarrow>
                  (\<exists>r. parse_command working_env ''xyz nonsense'' None = Inr r \<and>
                     product_id (slots r) = Some (p_id (catalog working_env ! j)) \<and>
                     product_name (slots r) = Some (p_name (catalog working_env ! j)) \<and>
                     category (slots r) = Some (p_category (catalog working_env ! j)) \<and>
                     quantity (slots r) = qty \<and>
                     intent r = detect_intent ''xyz nonsense'' \<and>
                     confidence r = py_round2 (float_div score' 100) \<and>
                     recommendations r = related))
           else
             (\<exists>r. parse_command working_env ''xyz nonsense'' None = Inr r \<and>
                product_id (slots r) = None \<and> product_name (slots r) = None \<and>
                category (slots r) = None \<and>
                (if get_similar_products (partial_ratio working_env) (catalog working_env)
                      ''xyz nonsense'' 5 \<noteq> []
                 then recommendations r =
                        get_similar_products (partial_ratio working_env) (catalog working_env)
                          ''xyz nonsense'' 5 \<and>
                      confidence r = 1 / 2 \<and> message r = MsgSimilar ''xyz nonsense''
                 else recommendations r = [] \<and> confidence r = 0 \<and>
                      message r = MsgNoMatch ''xyz nonsense''))"
    by blast
  have sc': "score' = 0" using j(1) best_nonsense by simp
  have second: "\<exists>r. parse_command working_env ''xyz nonsense'' None = Inr r \<and>
      product_id (slots r) = None \<and> confidence r = 0 \<and>
      message r = MsgNoMatch ''xyz nonsense''"
    using j(2) unfolding sc'
    by (simp add: quantity_examples similar_nonsense) blast
  from parse_list_apple obtain r where
    r: "parse_command working_env ''list apple'' None = Inr r" "intent r = list_products"
    by blast
  have "product_id (slots r) = None"
    using product_gate[OF normalized_list_apple[symmetric], of working_env None]
      intent_list_apple r(1) by simp
  then have third: "\<exists>r. parse_command working_env ''list apple'' None = Inr r \<and>
      product_id (slots r) = None \<and> intent r = list_products"
    using r by blast
  show ?thesis using first second third by blast
qed

section \<open>Properties of the related recommendations\<close>

lemma related_loop_zero:
  "related_loop pid 0 cat ps =
     (if \<forall>p\<in>set ps. p_id p = pid then Inr [] else Inl ZeroDivisionError)"
  by (induction ps) (simp_all add: true_divide_def)

lemma true_divide_nonzero: "b \<noteq> 0 \<Longrightarrow> true_divide a b \<noteq> Inl ZeroDivisionError"
  by (simp add: true_divide_def Let_def)

lemma related_loop_nonzero:
  "price \<noteq> 0 \<Longrightarrow> related_loop pid price cat ps \<noteq> Inl ZeroDivisionError"
proof (induction ps)
  case Nil
  then show ?case by simp
next
  case (Cons p ps)
  show ?case
  proof (cases "p_id p = pid")
    case True
    then show ?thesis using Cons by simp
  next
    case False
    show ?thesis
    proof (cases "true_divide \<bar>p_price p - price\<bar> price")
      case (Inl err)
      then have "err \<noteq> ZeroDivisionError"
        using true_divide_nonzero[OF Cons.prems, of "\<bar>p_price p - price\<bar>"] by auto
      then show ?thesis using False Inl by simp
    next
      case (Inr d)
      then show ?thesis using False Cons by (cases "related_loop pid price cat ps") simp_all
    qed
  qed
qed

lemma sort_reverse_sorted:
  "sorted_wrt (\<lambda>x y. f x \<ge> f y) (sort_reverse f xs)"
proof -
  have "sorted (map (\<lambda>x. - f x) (sort_key (\<lambda>x. - f x) xs))" by (rule sorted_sort_key)
  then have "sorted_wrt (\<lambda>x y. - f x \<le> - f y) (sort_key (\<lambda>x. - f x) xs)"
    by (simp only: sorted_wrt_map)
  then show ?thesis by (simp add: sort_reverse_def)
qed

lemma sort_reverse_stable:
  "filter (\<lambda>x. f x = k) (sort_reverse f xs) = filter (\<lambda>x. f x = k) xs"
proof -
  have "filter (\<lambda>x. - f x = - k) (sort_key (\<lambda>x. - f x) xs) = filter (\<lambda>x. - f x = - k) xs"
    by (rule sort_key_stable)
  then show ?thesis by (simp add: sort_reverse_def)
qed

lemma true_divide_Inr: "true_divide a b = Inr d \<Longrightarrow> d = nearest_double (of_int a / of_int b)"
  by (auto simp: true_divide_def Let_def split: if_splits)

lemma related_loop_returns:
  "related_loop pid price cat ps = Inr out \<Longrightarrow>
     out = map (\<lambda>p. Relevance p (related_score cat p
                 (nearest_double (of_int \<bar>p_price p - price\<bar> / of_int price))))
             (filter (\<lambda>p. p_id p \<noteq> pid \<and>
                 0 < related_score cat p
                       (nearest_double (of_int \<bar>p_price p - price\<bar> / of_int price))) ps)"
proof (induction ps arbitrary: out)
  case Nil
  then show ?case by simp
next
  case (Cons p ps)
  show ?case
  proof (cases "p_id p = pid")
    case True
    then show ?thesis using Cons by simp
  next
    case False
    then obtain d rest where d: "true_divide \<bar>p_price p - price\<bar> price = Inr d"
      and rest: "related_loop pid price cat ps = Inr rest"
      and out: "out = (if related_score cat p d > 0
                       then Relevance p (related_score cat p d) # rest else rest)"
      using Cons.prems by (auto split: sum.splits)
    have dv: "d = nearest_double (of_int \<bar>p_price p - price\<bar> / of_int price)"
      using d by (rule true_divide_Inr)
    show ?thesis using Cons.IH[OF rest] False by (simp add: out dv)
  qed
qed

lemma related_recommendations_returned:
  assumes "find (\<lambda>p. p_id p = pid) products = Some a"
    and "get_related_recommendations products pid n = Inr out"
  shows "\<exists>scored.
           out = take n scored \<and>
           sorted_wrt (\<lambda>x y. relevance_score x \<ge> relevance_score y) scored \<and>
           (\<forall>k. filter (\<lambda>r. relevance_score r = k) scored =
              filter (\<lambda>r. relevance_score r = k)
                (map (\<lambda>p. Relevance p (related_score (p_category a) p
                        (nearest_double (of_int \<bar>p_price p - p_price a\<bar> / of_int (p_price a)))))
                   (filter (\<lambda>p. p_id p \<noteq> pid \<and>
                        0 < related_score (p_category a) p
                          (nearest_double (of_int \<bar>p_price p - p_price a\<bar> / of_int (p_price a))))
                      products)))"
proof -
  from assms obtain related where
    rel: "related_loop pid (p_price a) (p_category a) products = Inr related"
    and out: "out = take n (sort_reverse relevance_score related)"
    by (auto simp: get_related_recommendations_def split: sum.splits)
  note r = related_loop_returns[OF rel]
  have "sorted_wrt (\<lambda>x y. relevance_score x \<ge> relevance_score y)
          (sort_reverse relevance_score related)"
    by (rule sort_reverse_sorted)
  moreover have "\<forall>k. filter (\<lambda>r. relevance_score r = k) (sort_reverse relevance_score related) =
      filter (\<lambda>r. relevance_score r = k) related"
    by (simp add: sort_reverse_stable)
  ultimately show ?thesis using out unfolding r[symmetric] by blast
qed

lemma related_example:
  "get_related_recommendations example_catalog ''p1'' 5 =
     Inr [Relevance (example_catalog ! 2) 80, Relevance (example_catalog ! 1) 30]"
  by code_simp

text \<open>
  Claim C9 describes the scoring of \<open>get_related_recommendations\<close> for an anchor
  product. What the code returns follows it (\<open>related_recommendations_returned\<close>;
  \<open>related_example\<close> is the example of the claim), but it does not return
  when the anchor's price is 0, the price \<open>load_products\<close> gives a product without
  one: the division by the anchor's price then raises \<open>ZeroDivisionError\<close> as soon as
  the catalog holds a product with another id, and nothing is scored. For an anchor in
  the catalog this is the only way to that exception.
\<close>

theorem related_recommendations_zero_price:
  assumes "find (\<lambda>p. p_id p = pid) products = Some a"
  shows "get_related_recommendations products pid n = Inl ZeroDivisionError \<longleftrightarrow>
           p_price a = 0 \<and> (\<exists>p\<in>set products. p_id p \<noteq> pid)"
proof (cases "p_price a = 0")
  case True
  then show ?thesis using assms
    by (auto simp: get_related_recommendations_def related_loop_zero)
next
  case False
  from related_loop_nonzero[OF this, of pid "p_category a" products]
  show ?thesis using assms False
    by (auto simp: get_related_recommendations_def split: sum.splits)
qed

theorem related_recommendations_zero_price_witness:
  "find (\<lambda>p. p_id p = ''p4'') example_catalog = Some (example_catalog ! 3) \<and>
   p_price (example_catalog ! 3) = 0 \<and>
   get_related_recommendations example_catalog ''p4'' 5 = Inl ZeroDivisionError"
proof -
  have f: "find (\<lambda>p. p_id p = ''p4'') example_catalog = Some (example_catalog ! 3)"
    by (simp add: example_catalog_def)
  have p: "p_price (example_catalog ! 3) = 0" by (simp add: example_catalog_def)
  have o: "\<exists>p\<in>set example_catalog. p_id p \<noteq> ''p4''" by (simp add: example_catalog_def)
  show ?thesis using related_recommendations_zero_price[OF f, of 5] f p o by simp
qed

end
